theory Spec2Isabelle
  imports Complex_Main "HOL-Library.Word" "HOL-Library.Signed_Division"
begin

section \<open>Data model of ExprKernel.cu\<close>

text \<open>
  The opcodes that \<^verbatim>\<open>ExprKernel.cu\<close> names. The enum itself is declared in
  \<^verbatim>\<open>ExprKernel.h\<close>; any enumerator that the file does not name is \<open>kOtherOp n\<close>.
\<close>

datatype OpCode =
    kReturn
  | kFilter
  | kWrap
  | kAggregate
  | kReadAggregate
  | kPlus_BIGINT
  | kLT_BIGINT
  | kOtherOp nat

text \<open>
  An instruction is an opcode and the union \<^verbatim>\<open>_\<close> of operand descriptors
  (\<^verbatim>\<open>_.binary\<close>, \<^verbatim>\<open>_.filter\<close>, \<^verbatim>\<open>_.wrap\<close>, \<^verbatim>\<open>_.aggregate\<close>). The descriptors are opaque to
  this file, so the union is a type parameter.
\<close>

record 'p Instruction =
  opCode :: OpCode
  payload :: 'p

text \<open>
  A program holds a pointer to its instructions, an array that ends with a \<open>kReturn\<close>
  instruction; a null pointer is \<open>None\<close>.
\<close>

record 'p ThreadBlockProgram =
  instructions :: "'p Instruction list option"

text \<open>
  The fields of \<^verbatim>\<open>KernelParams\<close> that the file reads: the program index of every block,
  the programs, and the optional array of resume points (null is \<open>None\<close>).
\<close>

record 'p KernelParams =
  programIdx :: "nat list"
  programs :: "'p ThreadBlockProgram list"
  startPC :: "int list option"

section \<open>Shared memory size of one instruction\<close>

text \<open>
  Constants of the headers that the file uses: \<^verbatim>\<open>sizeof(WaveShared)\<close>, \<^verbatim>\<open>kBlockSize\<close>,
  \<^verbatim>\<open>kWarpThreads\<close> and \<^verbatim>\<open>sizeof(DeviceAggregation)\<close>. Their values are not in the
  file; they are parameters of the model.
\<close>

record Constants =
  sizeofWaveShared :: nat
  kBlockSize :: nat
  kWarpThreads :: nat
  sizeofDeviceAggregation :: nat

text \<open>
  Conversions to the fixed-width signed types: the value is reduced modulo \<open>2 ^ w\<close> and
  read as two's complement.
\<close>

definition int32_t_of :: "int \<Rightarrow> int" where
  "int32_t_of x = sint (word_of_int x :: 32 word)"

definition int64_t_of :: "int \<Rightarrow> int" where
  "int64_t_of x = sint (word_of_int x :: 64 word)"

definition sizeof_int32_t :: nat where
  "sizeof_int32_t = 4"

text \<open>
  \<^verbatim>\<open>instructionSharedMemory\<close>: the sum is computed in \<^verbatim>\<open>size_t\<close> and returned as
  \<^verbatim>\<open>int32_t\<close>.
\<close>

definition instructionSharedMemory :: "Constants \<Rightarrow> 'p Instruction \<Rightarrow> int" where
  "instructionSharedMemory C instruction =
     (case opCode instruction of
        kFilter \<Rightarrow>
          int32_t_of (int (sizeofWaveShared C +
            (2 + (kBlockSize C div kWarpThreads C)) * sizeof_int32_t))
      | _ \<Rightarrow> int32_t_of (int (sizeofWaveShared C)))"

section \<open>Host-visible events\<close>

text \<open>
  What the host functions of the file do is a sequence of events on CUDA streams: kernel
  launches with their launch configuration, the last-error check of \<^verbatim>\<open>CUDA_CHECK\<close>, and
  \<^verbatim>\<open>wait()\<close> on a stream. A stream is named by a number. \<open>LaunchOne\<close> is a launch by
  \<^verbatim>\<open>CALL_ONE\<close>; \<open>LaunchBase\<close> the launch of \<^verbatim>\<open>waveBaseKernel\<close> (blocks, threads, shared
  bytes, stream); \<open>LaunchSetup\<close> the launch of \<^verbatim>\<open>setupAggregationKernel\<close> (blocks, threads,
  shared bytes, stream, argument); \<open>LaunchCompiled\<close> a launch through a
  \<^verbatim>\<open>CompiledKernel\<close> (kernel, entry point, blocks, threads, shared bytes, stream, argument).
\<close>

datatype Kernel =
    K_oneFilter
  | K_oneAggregate
  | K_oneReadAggregate
  | K_onePlusBigint
  | K_oneLt_int64_t

record Launch =
  entry :: Kernel
  gridDim :: nat
  blockDim :: nat
  sharedBytes :: int
  onStream :: nat
  pcArg :: int
  baseArg :: int

type_synonym addr = nat

record AggregationControl =
  head :: addr
  oldBuckets :: "addr option"
  numOldBuckets :: int
  rowSize :: int

datatype Event =
    LaunchOne Launch
  | LaunchBase int nat int nat
  | LaunchSetup int int int nat AggregationControl
  | LaunchCompiled nat int int int int nat AggregationControl
  | LastErrorCheck
  | StreamWait nat

text \<open>
  What stops a function of the file: a read outside an array (\<open>OutOfBounds\<close>) or through
  a null pointer (\<open>NullPointer\<close>), both undefined behaviour in the source; a failed
  \<^verbatim>\<open>assert\<close>; an error that \<^verbatim>\<open>CUDA_CHECK\<close> throws; and a loop whose counter
  does not advance (\<open>NoProgress\<close>).
\<close>

datatype error =
    OutOfBounds
  | NullPointer
  | AssertionFailed
  | CudaError
  | NoProgress

text \<open>
  The environment of the host functions: the constants, the stream of the
  \<^verbatim>\<open>WaveKernelStream\<close> object, and what \<^verbatim>\<open>cudaGetLastError\<close> reports after a launch
  (\<open>True\<close>: an error).
\<close>

record Env =
  constants :: Constants
  thisStream :: nat
  cudaGetLastError :: "Event \<Rightarrow> bool"

text \<open>
  The state that the host functions change: the caller's \<^verbatim>\<open>KernelParams\<close>, passed by
  reference, the events issued so far, and the error that stopped the function, if any.
\<close>

record 'p Host =
  params :: "'p KernelParams"
  events :: "Event list"
  fault :: "error option"

section \<open>Aggregation setup and rehash\<close>

text \<open>
  \<^verbatim>\<open>DeviceAggregation\<close> is declared in \<^verbatim>\<open>Aggregate.cuh\<close>; the file reads \<^verbatim>\<open>table\<close> and
  writes \<^verbatim>\<open>rowSize\<close> (here \<open>rowSizeD\<close>, the name being taken by the field of
  \<^verbatim>\<open>AggregationControl\<close>) and \<^verbatim>\<open>singleRow\<close>.
\<close>

record DeviceAggregation =
  table :: addr
  rowSizeD :: int
  singleRow :: addr

text \<open>
  Device memory: the \<^verbatim>\<open>DeviceAggregation\<close> objects by the address they were constructed
  at, and the bytes. An object at \<open>a\<close> occupies the \<open>sizeofDeviceAggregation\<close> bytes from
  \<open>a\<close>; the file writes bytes only from \<open>a + sizeofDeviceAggregation\<close> on, so the two parts
  of the store are kept apart. \<open>tables\<close> is the state of the hash tables, which only the
  table's own \<^verbatim>\<open>rehash\<close> touches.
\<close>

record 't DeviceMemory =
  aggregations :: "addr \<rightharpoonup> DeviceAggregation"
  bytes :: "addr \<Rightarrow> 8 word"
  tables :: 't

text \<open>\<^verbatim>\<open>memset(p, c, n)\<close> on the bytes.\<close>

definition memset :: "(addr \<Rightarrow> 8 word) \<Rightarrow> addr \<Rightarrow> 8 word \<Rightarrow> nat \<Rightarrow> (addr \<Rightarrow> 8 word)" where
  "memset m p c n = (\<lambda>a. if p \<le> a \<and> a < p + n then c else m a)"

text \<open>Conversion of an \<^verbatim>\<open>int32_t\<close> to \<^verbatim>\<open>size_t\<close>, as in the third argument of memset.\<close>

definition size_t_of :: "int \<Rightarrow> nat" where
  "size_t_of x = nat (x mod 2 ^ 64)"

text \<open>
  \<^verbatim>\<open>setupAggregationKernel\<close>, as one thread runs it. \<open>rehash\<close> stands for
  \<^verbatim>\<open>GpuHashTable::rehash<SumGroupRow>\<close> (table, old buckets, count), \<open>fresh\<close> for the value
  that \<^verbatim>\<open>DeviceAggregation()\<close> constructs. Reading \<^verbatim>\<open>op.head->table\<close> where no object was
  constructed is \<open>NullPointer\<close>.
\<close>

definition setupAggregationKernel ::
  "Constants \<Rightarrow> (addr \<Rightarrow> addr \<Rightarrow> int \<Rightarrow> 't \<Rightarrow> 't) \<Rightarrow> DeviceAggregation \<Rightarrow>
   AggregationControl \<Rightarrow> 't DeviceMemory \<Rightarrow> error + 't DeviceMemory" where
  "setupAggregationKernel C rehash fresh op m =
     (case oldBuckets op of
        Some old \<Rightarrow>
          (case aggregations m (head op) of
             None \<Rightarrow> Inl NullPointer
           | Some h \<Rightarrow> Inr (m\<lparr>tables := rehash (table h) old (numOldBuckets op) (tables m)\<rparr>))
      | None \<Rightarrow>
          (let data = head op;
               d1 = fresh\<lparr>rowSizeD := rowSize op\<rparr>;
               d2 = d1\<lparr>singleRow := data + 1 * sizeofDeviceAggregation C\<rparr>
           in Inr (m\<lparr>aggregations := (aggregations m)(data \<mapsto> d2),
                     bytes := memset (bytes m) (singleRow d2) 0 (size_t_of (rowSize op))\<rparr>)))"

text \<open>
  \<^verbatim>\<open>WaveKernelStream::setupAggregation\<close>. \<open>roundUp\<close> is the helper of \<^verbatim>\<open>CudaUtil.cuh\<close>,
  a parameter here; \<open>kernel'\<close> is the optional \<^verbatim>\<open>CompiledKernel\<close>, named by a number;
  \<open>this\<close> is the stream of the object. The result is the launch configuration
  \<open>(numBlocks, numThreads)\<close> and the events issued.
\<close>

definition setupAggregation ::
  "Constants \<Rightarrow> (int \<Rightarrow> int \<Rightarrow> int) \<Rightarrow> nat \<Rightarrow> AggregationControl \<Rightarrow> int \<Rightarrow> nat option \<Rightarrow>
   (int \<times> int) \<times> Event list" where
  "setupAggregation C roundUp this op entryPoint kernel' =
     (let numBlocks = 1;
          numThreads = 1;
          (numBlocks, numThreads) =
            (if oldBuckets op \<noteq> None
             then (int32_t_of (min
                     (int64_t_of (roundUp (numOldBuckets op) (int (kBlockSize C))
                        sdiv int (kBlockSize C)))
                     640),
                   int (kBlockSize C))
             else (numBlocks, numThreads));
          launch =
            (case kernel' of
               Some k \<Rightarrow> LaunchCompiled k entryPoint numBlocks numThreads 0 this op
             | None \<Rightarrow> LaunchSetup numBlocks numThreads 0 this op)
      in ((numBlocks, numThreads), [launch, StreamWait this]))"

section \<open>The stepping driver\<close>

text \<open>
  \<^verbatim>\<open>CALL_ONE(k, params, pc, base)\<close>: the launch of \<open>k\<close> on \<open>blocksPerExe\<close> blocks of
  \<open>kBlockSize\<close> threads, on the stream of \<open>alias\<close> if there is one and on the object's
  own otherwise, and the check of the last error. The \<open>params\<close> passed by value are the
  caller's, with \<open>startPC\<close> as it was at entry.
\<close>

definition streamOf :: "Env \<Rightarrow> nat option \<Rightarrow> nat" where
  "streamOf E alias = (case alias of Some a \<Rightarrow> a | None \<Rightarrow> thisStream E)"

definition CALL_ONE ::
  "Env \<Rightarrow> nat option \<Rightarrow> nat \<Rightarrow> int \<Rightarrow> Kernel \<Rightarrow> int \<Rightarrow> int \<Rightarrow> 'p Host \<Rightarrow> 'p Host" where
  "CALL_ONE E alias blocksPerExe sharedSize k pc base h =
     (let l = LaunchOne \<lparr>entry = k, gridDim = blocksPerExe,
                blockDim = kBlockSize (constants E), sharedBytes = sharedSize,
                onStream = streamOf E alias, pcArg = pc, baseArg = base\<rparr>
      in h\<lparr>events := events h @ [l, LastErrorCheck],
           fault := (if cudaGetLastError E l then Some CudaError else fault h)\<rparr>)"

text \<open>
  Lines 124 to 130: \<open>blocksPerExe\<close> counts the blocks from block 0 whose program index
  is that of block 0, up to \<open>numBlocks\<close>.
\<close>

function blocksPerExe_scan :: "nat list \<Rightarrow> int \<Rightarrow> nat \<Rightarrow> nat \<Rightarrow> error + nat" where
  "blocksPerExe_scan pidx numBlocks first blocksPerExe =
     (if int blocksPerExe < numBlocks then
        (if blocksPerExe < length pidx then
           (if pidx ! blocksPerExe \<noteq> first then Inr blocksPerExe
            else blocksPerExe_scan pidx numBlocks first (blocksPerExe + 1))
         else Inl OutOfBounds)
      else Inr blocksPerExe)"
  by pat_completeness auto
termination
  by (relation "measure (\<lambda>(pidx, numBlocks, first, blocksPerExe). length pidx - blocksPerExe)")
    auto

text \<open>
  Lines 136 to 138: the opcodes of an instruction array up to the first \<open>kReturn\<close>. An
  array without one is read past its end.
\<close>

fun opcodesUntilReturn :: "'p Instruction list \<Rightarrow> error + OpCode list" where
  "opcodesUntilReturn [] = Inl OutOfBounds"
| "opcodesUntilReturn (i # rest) =
     (if opCode i = kReturn then Inr []
      else (case opcodesUntilReturn rest of
              Inl e \<Rightarrow> Inl e
            | Inr ops \<Rightarrow> Inr (opCode i # ops)))"

text \<open>
  Lines 131 to 139: one opcode list per group of \<open>blocksPerExe\<close> blocks; the list of the
  group is read from \<open>params.programs[programs.size()]\<close>, the group's ordinal. With
  \<open>blocksPerExe = 0\<close> the counter \<open>i\<close> would not advance.
\<close>

function reconstruct ::
  "'p KernelParams \<Rightarrow> int \<Rightarrow> nat \<Rightarrow> nat \<Rightarrow> OpCode list list \<Rightarrow> error + OpCode list list" where
  "reconstruct P numBlocks blocksPerExe i progs =
     (if int i < numBlocks then
        (let programIdx' = length progs in
         if programIdx' < length (programs P) then
           (case instructions (programs P ! programIdx') of
              None \<Rightarrow> Inl NullPointer
            | Some ins \<Rightarrow>
                (case opcodesUntilReturn ins of
                   Inl e \<Rightarrow> Inl e
                 | Inr ops \<Rightarrow>
                     if 0 < blocksPerExe
                     then reconstruct P numBlocks blocksPerExe (i + blocksPerExe) (progs @ [ops])
                     else Inl NoProgress))
         else Inl OutOfBounds)
      else Inr progs)"
  by pat_completeness auto
termination
  by (relation "measure (\<lambda>(P, numBlocks, blocksPerExe, i, progs). nat numBlocks - i)") auto

text \<open>
  Lines 154 to 176: the replay of one group from \<open>pc\<close>. The comparison
  \<^verbatim>\<open>pc < program.size()\<close> converts the \<^verbatim>\<open>int32_t\<close> \<open>pc\<close> to \<^verbatim>\<open>size_t\<close>, so it is false for
  a negative \<open>pc\<close>. \<open>kFilter\<close> increments \<open>pc\<close> once in its case and once more by the
  loop. An error of a launch leaves the function.
\<close>

function replay ::
  "Env \<Rightarrow> nat option \<Rightarrow> nat \<Rightarrow> int \<Rightarrow> OpCode list \<Rightarrow> int \<Rightarrow> int \<Rightarrow> 'p Host \<Rightarrow> 'p Host" where
  "replay E alias blocksPerExe sharedSize program base pc h =
     (if 0 \<le> pc \<and> nat pc < length program then
        (case programs (params h) of
           [] \<Rightarrow> h\<lparr>fault := Some OutOfBounds\<rparr>
         | p0 # _ \<Rightarrow>
             if instructions p0 = None then h\<lparr>fault := Some AssertionFailed\<rparr>
             else
               (case program ! nat pc of
                  kFilter \<Rightarrow>
                    (let h' = CALL_ONE E alias blocksPerExe sharedSize K_oneFilter pc base h
                     in if fault h' = None
                        then replay E alias blocksPerExe sharedSize program base ((pc + 1) + 1) h'
                        else h')
                | kAggregate \<Rightarrow>
                    (let h' = CALL_ONE E alias blocksPerExe sharedSize K_oneAggregate pc base h
                     in if fault h' = None
                        then replay E alias blocksPerExe sharedSize program base (pc + 1) h'
                        else h')
                | kReadAggregate \<Rightarrow>
                    (let h' = CALL_ONE E alias blocksPerExe sharedSize K_oneReadAggregate pc base h
                     in if fault h' = None
                        then replay E alias blocksPerExe sharedSize program base (pc + 1) h'
                        else h')
                | kPlus_BIGINT \<Rightarrow>
                    (let h' = CALL_ONE E alias blocksPerExe sharedSize K_onePlusBigint pc base h
                     in if fault h' = None
                        then replay E alias blocksPerExe sharedSize program base (pc + 1) h'
                        else h')
                | kLT_BIGINT \<Rightarrow>
                    (let h' = CALL_ONE E alias blocksPerExe sharedSize K_oneLt_int64_t pc base h
                     in if fault h' = None
                        then replay E alias blocksPerExe sharedSize program base (pc + 1) h'
                        else h')
                | _ \<Rightarrow> h\<lparr>fault := Some AssertionFailed\<rparr>))
      else h)"
  by pat_completeness auto
termination
  by (relation "measure (\<lambda>(E, alias, blocksPerExe, sharedSize, program, base, pc, h).
        length program - nat pc)") auto

text \<open>
  The resume point of group \<open>programIdx\<close> (lines 145 to 148): 0 without a resume array.
\<close>

definition startOf :: "int list option \<Rightarrow> nat \<Rightarrow> error + int" where
  "startOf startPC' programIdx' =
     (case startPC' of
        None \<Rightarrow> Inr 0
      | Some a \<Rightarrow> if programIdx' < length a then Inr (a ! programIdx') else Inl OutOfBounds)"

text \<open>
  Lines 141 to 178: the groups in order, \<open>programIdx'\<close> counting them. \<open>~0\<close> is \<open>- 1\<close>.
\<close>

fun replayAll ::
  "Env \<Rightarrow> nat option \<Rightarrow> nat \<Rightarrow> int \<Rightarrow> int list option \<Rightarrow> OpCode list list \<Rightarrow> nat \<Rightarrow>
   'p Host \<Rightarrow> 'p Host" where
  "replayAll E alias blocksPerExe sharedSize initialStartPC [] programIdx' h = h"
| "replayAll E alias blocksPerExe sharedSize initialStartPC (program # rest) programIdx' h =
     (let base = int programIdx' * int blocksPerExe;
          h1 = h\<lparr>params := (params h)\<lparr>startPC := initialStartPC\<rparr>\<rparr>
      in case startOf (startPC (params h1)) programIdx' of
           Inl e \<Rightarrow> h1\<lparr>fault := Some e\<rparr>
         | Inr start \<Rightarrow>
             if start = - 1
             then replayAll E alias blocksPerExe sharedSize initialStartPC rest
                    (programIdx' + 1) h1
             else
               (let h2 = replay E alias blocksPerExe sharedSize program base start h1
                in if fault h2 = None
                   then replayAll E alias blocksPerExe sharedSize initialStartPC rest
                          (programIdx' + 1) (h2\<lparr>params := (params h2)\<lparr>startPC := None\<rparr>\<rparr>)
                   else h2))"

text \<open>\<^verbatim>\<open>WaveKernelStream::callOne\<close>.\<close>

definition callOne :: "Env \<Rightarrow> nat option \<Rightarrow> int \<Rightarrow> int \<Rightarrow> 'p Host \<Rightarrow> 'p Host" where
  "callOne E alias numBlocks sharedSize h =
     (case programIdx (params h) of
        [] \<Rightarrow> h\<lparr>fault := Some OutOfBounds\<rparr>
      | first # _ \<Rightarrow>
          (case blocksPerExe_scan (programIdx (params h)) numBlocks first 0 of
             Inl e \<Rightarrow> h\<lparr>fault := Some e\<rparr>
           | Inr blocksPerExe \<Rightarrow>
               (case reconstruct (params h) numBlocks blocksPerExe 0 [] of
                  Inl e \<Rightarrow> h\<lparr>fault := Some e\<rparr>
                | Inr progs \<Rightarrow>
                    replayAll E alias blocksPerExe sharedSize (startPC (params h)) progs 0 h)))"

text \<open>
  \<^verbatim>\<open>WaveKernelStream::call\<close>: under \<^verbatim>\<open>FLAGS_kernel_gdb\<close> the stepping driver and one
  \<^verbatim>\<open>wait()\<close>, otherwise one launch of \<^verbatim>\<open>waveBaseKernel\<close> on all blocks.
\<close>

definition call :: "Env \<Rightarrow> bool \<Rightarrow> nat option \<Rightarrow> int \<Rightarrow> int \<Rightarrow> 'p Host \<Rightarrow> 'p Host" where
  "call E FLAGS_kernel_gdb alias numBlocks sharedSize h =
     (if FLAGS_kernel_gdb then
        (let h' = callOne E alias numBlocks sharedSize h
         in if fault h' = None
            then h'\<lparr>events := events h' @ [StreamWait (streamOf E alias)]\<rparr>
            else h')
      else
        (let l = LaunchBase numBlocks (kBlockSize (constants E)) sharedSize (streamOf E alias)
         in h\<lparr>events := events h @ [l, LastErrorCheck],
              fault := (if cudaGetLastError E l then Some CudaError else fault h)\<rparr>))"

section \<open>Reading the events of a run\<close>

text \<open>
  The switch of the replay loop as a table: the kernel that an opcode is launched with
  and the total advance of \<open>pc\<close>, or \<open>None\<close> where the switch has no case.
\<close>

definition dispatch :: "OpCode \<Rightarrow> (Kernel \<times> int) option" where
  "dispatch c =
     (case c of
        kFilter \<Rightarrow> Some (K_oneFilter, 2)
      | kAggregate \<Rightarrow> Some (K_oneAggregate, 1)
      | kReadAggregate \<Rightarrow> Some (K_oneReadAggregate, 1)
      | kPlus_BIGINT \<Rightarrow> Some (K_onePlusBigint, 1)
      | kLT_BIGINT \<Rightarrow> Some (K_oneLt_int64_t, 1)
      | _ \<Rightarrow> None)"

text \<open>The launches among events, and the events that a function added to a host state.\<close>

fun launchesOf :: "Event list \<Rightarrow> Launch list" where
  "launchesOf [] = []"
| "launchesOf (LaunchOne l # es) = l # launchesOf es"
| "launchesOf (_ # es) = launchesOf es"

definition newEvents :: "'p Host \<Rightarrow> 'p Host \<Rightarrow> Event list" where
  "newEvents h h' = drop (length (events h)) (events h')"

text \<open>The events of a list of launches, each followed by its last-error check.\<close>

definition launchEvents :: "Launch list \<Rightarrow> Event list" where
  "launchEvents ls = concat (map (\<lambda>l. [LaunchOne l, LastErrorCheck]) ls)"

text \<open>
  The blocks that a launch of the stepping driver runs on: block \<^verbatim>\<open>blockIdx.x\<close> of the launch
  works as block \<^verbatim>\<open>blockIdx.x + base\<close>, for the \<open>gridDim\<close> values of \<^verbatim>\<open>blockIdx.x\<close>.
\<close>

definition launchBlocks :: "Launch \<Rightarrow> nat list" where
  "launchBlocks l = [nat (baseArg l) ..< nat (baseArg l) + gridDim l]"

text \<open>
  \<open>advancesByOpcode program ls\<close>: of two consecutive launches of \<open>ls\<close> the second is two
  positions after the first where the first is at a \<open>kFilter\<close>, and one position after
  it otherwise.
\<close>

fun advancesByOpcode :: "OpCode list \<Rightarrow> Launch list \<Rightarrow> bool" where
  "advancesByOpcode program [] = True"
| "advancesByOpcode program [l] = True"
| "advancesByOpcode program (l # l' # ls) =
     (pcArg l' = pcArg l + (if program ! nat (pcArg l) = kFilter then 2 else 1)
      \<and> advancesByOpcode program (l' # ls))"

text \<open>
  A launch of the replay of \<open>program\<close> for the group at \<open>base\<close>: its configuration,
  its arguments, and its kernel, the one of the opcode at its \<open>pc\<close>.
\<close>

definition replayLaunch :: "Env \<Rightarrow> nat option \<Rightarrow> nat \<Rightarrow> int \<Rightarrow> OpCode list \<Rightarrow> int \<Rightarrow> Launch \<Rightarrow> bool" where
  "replayLaunch E al blocksPerExe sharedSize program base l \<longleftrightarrow>
     gridDim l = blocksPerExe \<and> blockDim l = kBlockSize (constants E)
     \<and> sharedBytes l = sharedSize \<and> onStream l = streamOf E al \<and> baseArg l = base
     \<and> 0 \<le> pcArg l \<and> nat (pcArg l) < length program
     \<and> (\<exists>d. dispatch (program ! nat (pcArg l)) = Some (entry l, d))"

text \<open>
  The launches \<open>ls\<close> of group \<open>g\<close>: all of its replay, advancing by opcode, the first
  at the resume point of the group.
\<close>

definition groupOK ::
  "Env \<Rightarrow> nat option \<Rightarrow> nat \<Rightarrow> int \<Rightarrow> int list option \<Rightarrow> OpCode list \<Rightarrow> nat \<Rightarrow> Launch list \<Rightarrow> bool" where
  "groupOK E al blocksPerExe sharedSize initialStartPC program g ls \<longleftrightarrow>
     (\<forall>l \<in> set ls. replayLaunch E al blocksPerExe sharedSize program (int g * int blocksPerExe) l)
     \<and> advancesByOpcode program ls
     \<and> (ls \<noteq> [] \<longrightarrow> startOf initialStartPC g = Inr (pcArg (hd ls)))"

text \<open>
  The claim that the host waits between any two launches, as a check of a list of events:
  \<open>waitsBetween pending es\<close> is false when \<open>es\<close> has a launch while \<open>pending\<close>, that
  is, after an earlier launch and no \<open>StreamWait\<close> since.
\<close>

fun waitsBetween :: "bool \<Rightarrow> Event list \<Rightarrow> bool" where
  "waitsBetween pending [] = True"
| "waitsBetween pending (LaunchOne l # es) = (\<not> pending \<and> waitsBetween True es)"
| "waitsBetween pending (StreamWait s # es) = waitsBetween False es"
| "waitsBetween pending (_ # es) = waitsBetween pending es"

text \<open>
  The opcodes, up to \<open>kReturn\<close>, of the program that \<open>programIdx\<close> assigns to the first
  block of group \<open>g\<close>: \<open>params.programs[params.programIdx[g * blocksPerExe]]\<close>.
\<close>

definition assignedProgram :: "'p KernelParams \<Rightarrow> nat \<Rightarrow> nat \<Rightarrow> error + OpCode list" where
  "assignedProgram P blocksPerExe g =
     (let b = g * blocksPerExe in
      if b < length (programIdx P) then
        (let i = programIdx P ! b in
         if i < length (programs P) then
           (case instructions (programs P ! i) of
              None \<Rightarrow> Inl NullPointer
            | Some ins \<Rightarrow> opcodesUntilReturn ins)
         else Inl OutOfBounds)
      else Inl OutOfBounds)"

section \<open>The kernels on the device\<close>

text \<open>
  The kernels that the file dispatches to (\<^verbatim>\<open>filterKernel\<close>, \<^verbatim>\<open>wrapKernel\<close>,
  \<^verbatim>\<open>aggregateKernel\<close>, \<^verbatim>\<open>readAggregateKernel\<close>, \<^verbatim>\<open>binaryOpKernel\<close>) are in
  \<^verbatim>\<open>WaveCore.cuh\<close> and \<^verbatim>\<open>Aggregate.cuh\<close>: they are parameters, functions of the operand
  descriptor on the state \<open>'s\<close> that one thread block sees and changes (its operand
  buffers, its shared block state and lane status, and the aggregation table that it
  shares with the other blocks). \<^verbatim>\<open>binaryOpKernel\<close> also takes the operator, the
  lambda of the call. The macros \<^verbatim>\<open>PROGRAM_PREAMBLE\<close> and \<^verbatim>\<open>PROGRAM_EPILOGUE\<close> of
  \<^verbatim>\<open>WaveCore.cuh\<close> are parameters too: what the preamble of the block with a given index and
  what the epilogue do to that state.
\<close>

datatype BinaryOp = OpPlus | OpLess

record ('p, 's) Device =
  PROGRAM_PREAMBLE :: "nat \<Rightarrow> 's \<Rightarrow> 's"
  PROGRAM_EPILOGUE :: "'s \<Rightarrow> 's"
  filterKernel :: "'p \<Rightarrow> 's \<Rightarrow> 's"
  wrapKernel :: "'p \<Rightarrow> 's \<Rightarrow> 's"
  aggregateKernel :: "'p \<Rightarrow> 's \<Rightarrow> 's"
  readAggregateKernel :: "'p \<Rightarrow> 's \<Rightarrow> 's"
  binaryOpKernel :: "BinaryOp \<Rightarrow> 'p \<Rightarrow> 's \<Rightarrow> 's"


text \<open>
  The loop of \<^verbatim>\<open>waveBaseKernel\<close> (lines 67 to 96) in one block: \<open>instruction\<close> walks the
  array; the switch has no default, so an opcode without a case only advances it.
  Walking off the array, where no \<open>kReturn\<close> stops the loop, is \<open>OutOfBounds\<close>.
\<close>

fun waveBaseKernel_loop ::
  "('p, 's) Device \<Rightarrow> 'p Instruction list \<Rightarrow> 's \<Rightarrow> error + 's" where
  "waveBaseKernel_loop D [] s = Inl OutOfBounds"
| "waveBaseKernel_loop D (instruction # next) s =
     (case opCode instruction of
        kReturn \<Rightarrow> Inr (PROGRAM_EPILOGUE D s)
      | kFilter \<Rightarrow> waveBaseKernel_loop D next (filterKernel D (payload instruction) s)
      | kWrap \<Rightarrow> waveBaseKernel_loop D next (wrapKernel D (payload instruction) s)
      | kAggregate \<Rightarrow> waveBaseKernel_loop D next (aggregateKernel D (payload instruction) s)
      | kReadAggregate \<Rightarrow>
          waveBaseKernel_loop D next (readAggregateKernel D (payload instruction) s)
      | kPlus_BIGINT \<Rightarrow>
          waveBaseKernel_loop D next (binaryOpKernel D OpPlus (payload instruction) s)
      | kLT_BIGINT \<Rightarrow>
          waveBaseKernel_loop D next (binaryOpKernel D OpLess (payload instruction) s)
      | kOtherOp n \<Rightarrow> waveBaseKernel_loop D next s)"













section \<open>The two execution modes\<close>



text \<open>
  Modelled from the spec: which part of the device the kernels and macros of
  \<^verbatim>\<open>WaveCore.cuh\<close> and \<^verbatim>\<open>Aggregate.cuh\<close> work on. By sections 4.2 and 5 the preamble
  initialises the shared state of its block, the epilogue flushes the results of its
  block, and the kernels change operand buffers and lane status of their block; only the
  aggregation kernels reach the table that all blocks share. \<open>BlockKernels\<close> are kernels
  and macros of that kind, and \<open>deviceOf\<close> is the device they make.
\<close>

record ('p, 'b, 't) BlockKernels =
  blkPreamble :: "nat \<Rightarrow> 'b \<Rightarrow> 'b"
  blkEpilogue :: "'b \<Rightarrow> 'b"
  blkFilter :: "'p \<Rightarrow> 'b \<Rightarrow> 'b"
  blkWrap :: "'p \<Rightarrow> 'b \<Rightarrow> 'b"
  blkBinaryOp :: "BinaryOp \<Rightarrow> 'p \<Rightarrow> 'b \<Rightarrow> 'b"
  tblAggregate :: "'p \<Rightarrow> 'b \<times> 't \<Rightarrow> 'b \<times> 't"
  tblReadAggregate :: "'p \<Rightarrow> 'b \<times> 't \<Rightarrow> 'b \<times> 't"



text \<open>
  The case of the interpreter's switch for an instruction whose kernel works on the
  block alone, as a function of the state of the block.
\<close>

definition blockCase :: "('p, 'b, 't) BlockKernels \<Rightarrow> 'p Instruction \<Rightarrow> 'b \<Rightarrow> 'b" where
  "blockCase K instruction s =
     (case opCode instruction of
        kFilter \<Rightarrow> blkFilter K (payload instruction) s
      | kWrap \<Rightarrow> blkWrap K (payload instruction) s
      | kPlus_BIGINT \<Rightarrow> blkBinaryOp K OpPlus (payload instruction) s
      | kLT_BIGINT \<Rightarrow> blkBinaryOp K OpLess (payload instruction) s
      | _ \<Rightarrow> s)"


text \<open>
  The instructions that the replay loop launches a kernel for, when it starts at the
  first of them: all but the slot after each \<open>kFilter\<close>.
\<close>

fun launched :: "'p Instruction list \<Rightarrow> 'p Instruction list" where
  "launched [] = []"
| "launched [i] = [i]"
| "launched (i # j # rest) =
     (if opCode i = kFilter then i # launched rest else i # launched (j # rest))"

text \<open>
  What the two modes do to the state of block \<open>b\<close> for the instructions \<open>body\<close> of its
  program: the stepping driver one launch for each launched instruction, each with its
  preamble and epilogue; the interpreter one preamble, the cases of all instructions and
  one epilogue.
\<close>

definition stepped ::
  "('p, 'b, 't) BlockKernels \<Rightarrow> nat \<Rightarrow> 'p Instruction list \<Rightarrow> 'b \<Rightarrow> 'b" where
  "stepped K b body s =
     fold (\<lambda>i s. blkEpilogue K (blockCase K i (blkPreamble K b s))) (launched body) s"






section \<open>Example inputs\<close>

text \<open>
  An environment in which no launch fails, and a host state with the given block to
  program map, programs (as opcode lists, every payload 0) and resume points.
\<close>

definition exampleEnv :: Env where
  "exampleEnv =
     \<lparr>constants = \<lparr>sizeofWaveShared = 96, kBlockSize = 256, kWarpThreads = 32,
                   sizeofDeviceAggregation = 32\<rparr>,
      thisStream = 0, cudaGetLastError = (\<lambda>e. False)\<rparr>"

definition exampleHost :: "nat list \<Rightarrow> OpCode list list \<Rightarrow> int list option \<Rightarrow> nat Host" where
  "exampleHost pidx progs resume =
     \<lparr>params = \<lparr>programIdx = pidx,
                 programs = map (\<lambda>p. \<lparr>instructions =
                   Some (map (\<lambda>c. \<lparr>opCode = c, payload = 0\<rparr>) p)\<rparr>) progs,
                 startPC = resume\<rparr>,
      events = [], fault = None\<rparr>"

text \<open>
  A device whose block state is the list of kernels applied so far: 1 for the filter,
  2 for wrap, 3 for aggregate, 4 for read-aggregate, 5 for plus and 6 for less-than.
\<close>

definition exampleDevice :: "(nat, nat list) Device" where
  "exampleDevice =
     \<lparr>PROGRAM_PREAMBLE = (\<lambda>b s. s), PROGRAM_EPILOGUE = (\<lambda>s. s),
      filterKernel = (\<lambda>p s. s @ [1]), wrapKernel = (\<lambda>p s. s @ [2]),
      aggregateKernel = (\<lambda>p s. s @ [3]), readAggregateKernel = (\<lambda>p s. s @ [4]),
      binaryOpKernel = (\<lambda>f p s. s @ [case f of OpPlus \<Rightarrow> 5 | OpLess \<Rightarrow> 6])\<rparr>"



declare replay.simps [simp del]
declare blocksPerExe_scan.simps [simp del]
declare reconstruct.simps [simp del]

section \<open>Fixed-width conversions\<close>

lemma int32_t_of_id: "- (2 ^ 31) \<le> x \<Longrightarrow> x < 2 ^ 31 \<Longrightarrow> int32_t_of x = x"
  unfolding int32_t_of_def
  by (simp add: sint_sbintrunc' signed_take_bit_int_eq_self)

lemma int64_t_of_id: "- (2 ^ 63) \<le> x \<Longrightarrow> x < 2 ^ 63 \<Longrightarrow> int64_t_of x = x"
  unfolding int64_t_of_def
  by (simp add: sint_sbintrunc' signed_take_bit_int_eq_self)

lemma int32_t_of_nat: "n < 2 ^ 31 \<Longrightarrow> int32_t_of (int n) = int n"
  by (rule int32_t_of_id) simp_all

lemma size_t_of_nonneg: "0 \<le> x \<Longrightarrow> x < 2 ^ 64 \<Longrightarrow> size_t_of x = nat x"
  by (simp add: size_t_of_def)

lemma sdiv_nonneg: "0 \<le> (a::int) \<Longrightarrow> 0 < b \<Longrightarrow> a sdiv b = a div b"
  by (cases "a = 0") (simp_all add: signed_divide_int_def)

section \<open>Shared memory size: the claim on instructionSharedMemory\<close>

text \<open>
  C6. For every instruction, \<open>instructionSharedMemory\<close> is
  \<open>sizeof(WaveShared) + (2 + kBlockSize / kWarpThreads) * sizeof(int32_t)\<close> when the opcode
  is \<open>kFilter\<close> and \<open>sizeof(WaveShared)\<close> for every other opcode, and two instructions
  with the same opcode get the same size whatever their payloads. The constants are those
  of a build: \<open>kWarpThreads\<close> is positive and the sum fits the \<^verbatim>\<open>int32_t\<close> result.
\<close>

theorem instructionSharedMemory_by_opcode:
  assumes "0 < kWarpThreads C"
    and "sizeofWaveShared C + (2 + kBlockSize C div kWarpThreads C) * sizeof_int32_t < 2 ^ 31"
  shows "instructionSharedMemory C i =
           (if opCode i = kFilter
            then int (sizeofWaveShared C) + (2 + int (kBlockSize C) div int (kWarpThreads C)) * 4
            else int (sizeofWaveShared C))
         \<and> (\<forall>j :: 'p Instruction. opCode j = opCode i \<longrightarrow>
               instructionSharedMemory C j = instructionSharedMemory C i)"
proof -
  let ?f = "sizeofWaveShared C + (2 + kBlockSize C div kWarpThreads C) * sizeof_int32_t"
  have small: "sizeofWaveShared C < 2 ^ 31"
    using assms(2) by simp
  have f: "int32_t_of (int ?f) = int ?f"
    using assms(2) by (rule int32_t_of_nat)
  have b: "int32_t_of (int (sizeofWaveShared C)) = int (sizeofWaveShared C)"
    using small by (rule int32_t_of_nat)
  have "int ?f = int (sizeofWaveShared C) + (2 + int (kBlockSize C) div int (kWarpThreads C)) * 4"
    by (simp add: sizeof_int32_t_def zdiv_int)
  with f b show ?thesis
    by (auto simp: instructionSharedMemory_def split: OpCode.splits)
qed

theorem instructionSharedMemory_by_opcode_witness:
  "instructionSharedMemory
     \<lparr>sizeofWaveShared = 96, kBlockSize = 256, kWarpThreads = 32, sizeofDeviceAggregation = 32\<rparr>
     \<lparr>opCode = kFilter, payload = (7::nat)\<rparr> = 136
   \<and> instructionSharedMemory
     \<lparr>sizeofWaveShared = 96, kBlockSize = 256, kWarpThreads = 32, sizeofDeviceAggregation = 32\<rparr>
     \<lparr>opCode = kFilter, payload = (8::nat)\<rparr> = 136"
proof -
  let ?C = "\<lparr>sizeofWaveShared = 96, kBlockSize = 256, kWarpThreads = 32,
              sizeofDeviceAggregation = 32\<rparr>"
  let ?i = "\<lparr>opCode = kFilter, payload = (7::nat)\<rparr>"
  let ?j = "\<lparr>opCode = kFilter, payload = (8::nat)\<rparr>"
  have h1: "0 < kWarpThreads ?C"
    by simp
  have h2: "sizeofWaveShared ?C + (2 + kBlockSize ?C div kWarpThreads ?C) * sizeof_int32_t < 2 ^ 31"
    by (simp add: sizeof_int32_t_def)
  note t = instructionSharedMemory_by_opcode [OF h1 h2, of ?i]
  from t [THEN conjunct1] have a: "instructionSharedMemory ?C ?i = 136"
    by simp
  from t [THEN conjunct2, THEN spec, of ?j]
  have "instructionSharedMemory ?C ?j = instructionSharedMemory ?C ?i"
    by simp
  with a show ?thesis
    by simp
qed

section \<open>Aggregation setup: initialize and rehash\<close>

text \<open>
  C7. In initialize mode (\<open>oldBuckets\<close> unset) \<open>setupAggregationKernel\<close> returns, the
  \<open>DeviceAggregation\<close> at \<open>op.head\<close> records the row size \<open>R\<close> of \<open>op\<close>, its \<open>singleRow\<close>
  is the address right after the header, and the \<open>R\<close> bytes from there are zero. In this
  mode \<open>setupAggregation\<close> issues exactly one launch, of one block of one thread with no
  shared memory, on the stream of the object and with \<open>op\<close> as its argument (of
  \<open>setupAggregationKernel\<close>, or of the compiled kernel at the entry point when one is
  given), and then waits on that stream. \<open>R\<close> is an \<^verbatim>\<open>int32_t\<close>.
\<close>

theorem setupAggregation_initialize:
  assumes "oldBuckets op = None"
    and "- (2 ^ 31) \<le> rowSize op" and "rowSize op < 2 ^ 31"
  shows "\<exists>m' d. setupAggregationKernel C rehash fresh op m = Inr m'
           \<and> aggregations m' (head op) = Some d
           \<and> rowSizeD d = rowSize op
           \<and> singleRow d = head op + sizeofDeviceAggregation C
           \<and> (\<forall>i < nat (rowSize op). bytes m' (singleRow d + i) = 0)
           \<and> setupAggregation C roundUp this op entryPoint kernel' =
               ((1, 1),
                [case kernel' of
                   Some c \<Rightarrow> LaunchCompiled c entryPoint 1 1 0 this op
                 | None \<Rightarrow> LaunchSetup 1 1 0 this op,
                 StreamWait this])"
proof -
  have "nat (rowSize op) \<le> size_t_of (rowSize op)"
  proof (cases "0 \<le> rowSize op")
    case True
    then show ?thesis using assms(3) by (simp add: size_t_of_nonneg)
  next
    case False
    then show ?thesis by simp
  qed
  then show ?thesis
    using assms(1)
    by (simp add: setupAggregationKernel_def setupAggregation_def memset_def Let_def
          split: option.split)
qed

theorem setupAggregation_initialize_witness:
  "\<exists>m' d. setupAggregationKernel
       \<lparr>sizeofWaveShared = 96, kBlockSize = 256, kWarpThreads = 32, sizeofDeviceAggregation = 32\<rparr>
       (\<lambda>t old n s. s) \<lparr>table = 0, rowSizeD = 0, singleRow = 0\<rparr>
       \<lparr>head = 1024, oldBuckets = None, numOldBuckets = 0, rowSize = 16\<rparr>
       \<lparr>aggregations = Map.empty, bytes = (\<lambda>a. 255), tables = ()\<rparr> = Inr m'
     \<and> aggregations m' 1024 = Some d
     \<and> rowSizeD d = 16
     \<and> singleRow d = 1056
     \<and> bytes m' 1056 = 0 \<and> bytes m' 1071 = 0 \<and> bytes m' 1072 = 255
     \<and> setupAggregation
       \<lparr>sizeofWaveShared = 96, kBlockSize = 256, kWarpThreads = 32, sizeofDeviceAggregation = 32\<rparr>
       (\<lambda>v f. (v + (f - 1)) sdiv f * f) 3
       \<lparr>head = 1024, oldBuckets = None, numOldBuckets = 0, rowSize = 16\<rparr> 0 None =
         ((1, 1),
          [LaunchSetup 1 1 0 3
             \<lparr>head = 1024, oldBuckets = None, numOldBuckets = 0, rowSize = 16\<rparr>,
           StreamWait 3])"
proof -
  let ?C = "\<lparr>sizeofWaveShared = 96, kBlockSize = 256, kWarpThreads = 32,
              sizeofDeviceAggregation = 32\<rparr>"
  let ?op = "\<lparr>head = 1024, oldBuckets = None, numOldBuckets = 0, rowSize = 16\<rparr>"
  let ?m = "\<lparr>aggregations = Map.empty, bytes = (\<lambda>a. 255 :: 8 word), tables = ()\<rparr>"
  have h1: "oldBuckets ?op = None" by simp
  have h2: "- (2 ^ 31) \<le> rowSize ?op" by simp
  have h3: "rowSize ?op < 2 ^ 31" by simp
  from setupAggregation_initialize [OF h1 h2 h3, of ?C "\<lambda>t old n s. s"
      "\<lparr>table = 0, rowSizeD = 0, singleRow = 0\<rparr>" ?m "\<lambda>v f. (v + (f - 1)) sdiv f * f" 3 0 None]
  obtain m' d where r: "setupAggregationKernel ?C (\<lambda>t old n s. s)
        \<lparr>table = 0, rowSizeD = 0, singleRow = 0\<rparr> ?op ?m = Inr m'"
      "aggregations m' (head ?op) = Some d" "rowSizeD d = rowSize ?op"
      "singleRow d = head ?op + sizeofDeviceAggregation ?C"
      "\<forall>i < nat (rowSize ?op). bytes m' (singleRow d + i) = 0"
      "setupAggregation ?C (\<lambda>v f. (v + (f - 1)) sdiv f * f) 3 ?op 0 None =
         ((1, 1), [case None of
                     Some c \<Rightarrow> LaunchCompiled c 0 1 1 0 3 ?op
                   | None \<Rightarrow> LaunchSetup 1 1 0 3 ?op,
                   StreamWait 3])"
    by blast
  from r(5) [THEN spec, of 0] r(5) [THEN spec, of 15]
  have z: "bytes m' (singleRow d) = 0" "bytes m' (singleRow d + 15) = 0"
    by simp_all
  have "bytes m' 1072 = 255"
    using r(1) by (auto simp: setupAggregationKernel_def memset_def size_t_of_def Let_def)
  with r z show ?thesis
    by auto
qed

lemma ceiling_of_multiple:
  fixes n k r :: int
  assumes "0 < k" "k dvd r" "n \<le> r" "r < n + k"
  shows "r div k = \<lceil>real_of_int n / real_of_int k\<rceil>"
proof -
  from assms(2) obtain q where q: "r = k * q" by (auto simp: dvd_def)
  have "r div k = q" using q assms(1) by simp
  moreover have "\<lceil>real_of_int n / real_of_int k\<rceil> = q"
  proof (rule ceiling_unique)
    have "real_of_int (k * q) < real_of_int (n + k)"
      using assms(4) q by (simp only: of_int_less_iff)
    then have "real_of_int k * (real_of_int q - 1) < real_of_int n"
      by (simp add: algebra_simps)
    then show "real_of_int q - 1 < real_of_int n / real_of_int k"
      using assms(1) by (simp add: pos_less_divide_eq mult.commute)
    have "real_of_int n \<le> real_of_int (k * q)"
      using assms(3) q by (simp only: of_int_le_iff)
    then show "real_of_int n / real_of_int k \<le> real_of_int q"
      using assms(1) by (simp add: pos_divide_le_eq mult.commute)
  qed
  ultimately show ?thesis by simp
qed

text \<open>
  C8. In rehash mode (\<open>oldBuckets\<close> set) \<open>setupAggregation\<close> launches \<open>kBlockSize\<close>
  threads per block and \<open>min (ceiling (numOldBuckets / kBlockSize)) 640\<close> blocks; a
  larger count is clamped to 640 and the launch and the wait are issued all the same,
  the function having no error result. \<open>roundUp n k\<close> is assumed to be the least
  multiple of \<open>k\<close> that is at least \<open>n\<close>, and \<open>numOldBuckets\<close> a count that fits
  \<^verbatim>\<open>int64_t\<close>.
\<close>

theorem setupAggregation_rehash_blocks:
  assumes old: "oldBuckets op = Some b"
    and k: "0 < kBlockSize C"
    and n: "0 \<le> numOldBuckets op" "numOldBuckets op + int (kBlockSize C) < 2 ^ 63"
    and r: "int (kBlockSize C) dvd roundUp (numOldBuckets op) (int (kBlockSize C))"
           "numOldBuckets op \<le> roundUp (numOldBuckets op) (int (kBlockSize C))"
           "roundUp (numOldBuckets op) (int (kBlockSize C)) < numOldBuckets op + int (kBlockSize C)"
  shows "setupAggregation C roundUp this op entryPoint kernel' =
           ((min \<lceil>real_of_int (numOldBuckets op) / real (kBlockSize C)\<rceil> 640, int (kBlockSize C)),
            [case kernel' of
               Some c \<Rightarrow> LaunchCompiled c entryPoint
                 (min \<lceil>real_of_int (numOldBuckets op) / real (kBlockSize C)\<rceil> 640)
                 (int (kBlockSize C)) 0 this op
             | None \<Rightarrow> LaunchSetup
                 (min \<lceil>real_of_int (numOldBuckets op) / real (kBlockSize C)\<rceil> 640)
                 (int (kBlockSize C)) 0 this op,
             StreamWait this])"
proof -
  let ?k = "int (kBlockSize C)"
  let ?r = "roundUp (numOldBuckets op) ?k"
  let ?c = "\<lceil>real_of_int (numOldBuckets op) / real (kBlockSize C)\<rceil>"
  have kpos: "0 < ?k" using k by simp
  have rnn: "0 \<le> ?r" using n(1) r(2) by linarith
  have d: "?r sdiv ?k = ?r div ?k"
    using rnn kpos by (rule sdiv_nonneg)
  have c: "?r div ?k = ?c"
    using ceiling_of_multiple [OF kpos r] by simp
  have c0: "0 \<le> ?c"
    using n(1) kpos by (simp add: c [symmetric] pos_imp_zdiv_nonneg_iff rnn)
  have "?r div ?k \<le> ?r"
    using rnn kpos by (metis div_0 int_div_le_self leI nle_le)
  then have c63: "?c < 2 ^ 63"
    using c r(3) n(2) by linarith
  have i64: "int64_t_of ?c = ?c"
    using c0 c63 by (intro int64_t_of_id) linarith+
  have "0 \<le> min ?c 640" "min ?c 640 \<le> 640"
    using c0 by simp_all
  then have i32: "int32_t_of (min ?c 640) = min ?c 640"
    by (intro int32_t_of_id) simp_all
  show ?thesis
    using old by (simp add: setupAggregation_def d c i64 i32 split: option.split)
qed

theorem setupAggregation_rehash_blocks_witness:
  "setupAggregation
     \<lparr>sizeofWaveShared = 96, kBlockSize = 256, kWarpThreads = 32, sizeofDeviceAggregation = 32\<rparr>
     (\<lambda>v f. (v + (f - 1)) sdiv f * f) 3
     \<lparr>head = 1024, oldBuckets = Some 4096, numOldBuckets = 1000000, rowSize = 16\<rparr> 0 None
   = ((640, 256),
      [LaunchSetup 640 256 0 3
         \<lparr>head = 1024, oldBuckets = Some 4096, numOldBuckets = 1000000, rowSize = 16\<rparr>,
       StreamWait 3])"
proof -
  let ?C = "\<lparr>sizeofWaveShared = 96, kBlockSize = 256, kWarpThreads = 32,
              sizeofDeviceAggregation = 32\<rparr>"
  let ?op = "\<lparr>head = 1024, oldBuckets = Some 4096, numOldBuckets = 1000000, rowSize = 16\<rparr>"
  let ?roundUp = "\<lambda>v f :: int. (v + (f - 1)) sdiv f * f"
  have v: "?roundUp (numOldBuckets ?op) (int (kBlockSize ?C)) = 1000192"
    by (simp add: signed_divide_int_def)
  have h: "oldBuckets ?op = Some 4096" "0 < kBlockSize ?C"
    "0 \<le> numOldBuckets ?op" "numOldBuckets ?op + int (kBlockSize ?C) < 2 ^ 63"
    by simp_all
  have r: "int (kBlockSize ?C) dvd ?roundUp (numOldBuckets ?op) (int (kBlockSize ?C))"
    "numOldBuckets ?op \<le> ?roundUp (numOldBuckets ?op) (int (kBlockSize ?C))"
    "?roundUp (numOldBuckets ?op) (int (kBlockSize ?C)) < numOldBuckets ?op + int (kBlockSize ?C)"
    unfolding v by simp_all
  show ?thesis
    using setupAggregation_rehash_blocks [of ?op 4096 ?C ?roundUp 3 0 None, OF h r]
    by simp
qed

section \<open>The replay loop and the loop over the groups\<close>


lemma replay_unfold:
  "replay E alias blocksPerExe sharedSize program base pc h =
     (if 0 \<le> pc \<and> nat pc < length program then
        (case programs (params h) of
           [] \<Rightarrow> h\<lparr>fault := Some OutOfBounds\<rparr>
         | p0 # _ \<Rightarrow>
             if instructions p0 = None then h\<lparr>fault := Some AssertionFailed\<rparr>
             else
               (case dispatch (program ! nat pc) of
                  None \<Rightarrow> h\<lparr>fault := Some AssertionFailed\<rparr>
                | Some (k, d) \<Rightarrow>
                    (let h' = CALL_ONE E alias blocksPerExe sharedSize k pc base h
                     in if fault h' = None
                        then replay E alias blocksPerExe sharedSize program base (pc + d) h'
                        else h')))
      else h)"
proof (cases "0 \<le> pc \<and> nat pc < length program")
  case out: False
  show ?thesis
    by (subst replay.simps) (simp add: out)
next
  case inrange: True
  show ?thesis
  proof (cases "programs (params h)")
    case Nil
    show ?thesis
      by (subst replay.simps) (simp add: inrange Nil)
  next
    case (Cons p0 ps)
    show ?thesis
    proof (cases "instructions p0 = None")
      case True
      show ?thesis
        by (subst replay.simps) (simp add: inrange Cons True)
    next
      case False
      show ?thesis
        by (cases "program ! nat pc"; subst replay.simps;
            simp add: inrange Cons False dispatch_def Let_def add.commute)
    qed
  qed
qed

lemma replay_induct':
  assumes "\<And>E al blocksPerExe sharedSize program base pc h.
     (\<And>k d p0 ps. 0 \<le> pc \<Longrightarrow> nat pc < length program \<Longrightarrow> programs (params h) = p0 # ps \<Longrightarrow>
        instructions p0 \<noteq> None \<Longrightarrow> dispatch (program ! nat pc) = Some (k, d) \<Longrightarrow>
        fault (CALL_ONE E al blocksPerExe sharedSize k pc base h) = None \<Longrightarrow>
        P E al blocksPerExe sharedSize program base (pc + d)
          (CALL_ONE E al blocksPerExe sharedSize k pc base h)) \<Longrightarrow>
     P E al blocksPerExe sharedSize program base pc h"
  shows "P E al blocksPerExe sharedSize program base pc (h :: 'p Host)"
proof (induction E al blocksPerExe sharedSize program base pc h rule: replay.induct)
  case (1 E al blocksPerExe sharedSize program base pc h)
  show ?case
  proof (rule assms)
    fix k d p0 ps
    assume a: "0 \<le> pc" "nat pc < length program" "programs (params h) = p0 # ps"
      "instructions p0 \<noteq> None" "dispatch (program ! nat pc) = Some (k, d)"
      "fault (CALL_ONE E al blocksPerExe sharedSize k pc base h) = None"
    show "P E al blocksPerExe sharedSize program base (pc + d)
            (CALL_ONE E al blocksPerExe sharedSize k pc base h)"
      using a 1 by (cases "program ! nat pc") (simp_all add: dispatch_def add.commute)
  qed
qed

lemma dispatch_step: "dispatch c = Some (k, d) \<Longrightarrow> d = (if c = kFilter then 2 else 1)"
  by (auto simp: dispatch_def split: OpCode.splits)

lemma launchesOf_launchEvents [simp]: "launchesOf (launchEvents ls) = ls"
  by (induction ls) (simp_all add: launchEvents_def)

lemma launchEvents_Cons: "launchEvents (l # ls) = LaunchOne l # LastErrorCheck # launchEvents ls"
  by (simp add: launchEvents_def)

lemma CALL_ONE_events:
  "events (CALL_ONE E al blocksPerExe sharedSize k pc base h) =
     events h @ launchEvents [\<lparr>entry = k, gridDim = blocksPerExe,
        blockDim = kBlockSize (constants E), sharedBytes = sharedSize,
        onStream = streamOf E al, pcArg = pc, baseArg = base\<rparr>]"
  by (simp add: CALL_ONE_def launchEvents_def Let_def)

lemma CALL_ONE_params: "params (CALL_ONE E al blocksPerExe sharedSize k pc base h) = params h"
  by (simp add: CALL_ONE_def Let_def)

lemma replay_structure:
  "params (replay E al blocksPerExe sharedSize program base pc h) = params h \<and>
   (\<exists>ls. events (replay E al blocksPerExe sharedSize program base pc h) =
            events h @ launchEvents ls
        \<and> (\<forall>l \<in> set ls. replayLaunch E al blocksPerExe sharedSize program base l)
        \<and> advancesByOpcode program ls
        \<and> (ls \<noteq> [] \<longrightarrow> pcArg (hd ls) = pc))"
proof (induction E al blocksPerExe sharedSize program base pc h rule: replay_induct')
  case (1 E al blocksPerExe sharedSize program base pc h)
  let ?R = "replay E al blocksPerExe sharedSize program base pc h"
  have nil: "launchEvents [] = []" by (simp add: launchEvents_def)
  show ?case
  proof (cases "0 \<le> pc \<and> nat pc < length program")
    case out: False
    have "?R = h" by (subst replay_unfold) (simp add: out)
    then show ?thesis using nil by (intro conjI exI [of _ "[]"]) simp_all
  next
    case inrange: True
    show ?thesis
    proof (cases "programs (params h)")
      case Nil
      have "?R = h\<lparr>fault := Some OutOfBounds\<rparr>"
        by (subst replay_unfold) (simp add: inrange Nil)
      then show ?thesis using nil by (intro conjI exI [of _ "[]"]) simp_all
    next
      case (Cons p0 ps)
      show ?thesis
      proof (cases "instructions p0 = None \<or> dispatch (program ! nat pc) = None")
        case True
        have "?R = h\<lparr>fault := Some AssertionFailed\<rparr>"
          using True by (subst replay_unfold) (auto simp: inrange Cons)
        then show ?thesis using nil by (intro conjI exI [of _ "[]"]) simp_all
      next
        case False
        then obtain k d where kd: "dispatch (program ! nat pc) = Some (k, d)"
          and nn: "instructions p0 \<noteq> None"
          by auto
        let ?l = "\<lparr>entry = k, gridDim = blocksPerExe,
          blockDim = kBlockSize (constants E), sharedBytes = sharedSize,
          onStream = streamOf E al, pcArg = pc, baseArg = base\<rparr>"
        let ?h' = "CALL_ONE E al blocksPerExe sharedSize k pc base h"
        have l: "replayLaunch E al blocksPerExe sharedSize program base ?l"
          using inrange kd by (simp add: replayLaunch_def)
        have R: "?R = (if fault ?h' = None
                       then replay E al blocksPerExe sharedSize program base (pc + d) ?h'
                       else ?h')"
          by (subst replay_unfold) (simp add: inrange Cons nn kd Let_def)
        show ?thesis
        proof (cases "fault ?h' = None")
          case ok: True
          from 1 [OF _ _ Cons nn kd ok] inrange
          obtain ls where ls:
            "params (replay E al blocksPerExe sharedSize program base (pc + d) ?h') = params ?h'"
            "events (replay E al blocksPerExe sharedSize program base (pc + d) ?h') =
               events ?h' @ launchEvents ls"
            "\<forall>l \<in> set ls. replayLaunch E al blocksPerExe sharedSize program base l"
            "advancesByOpcode program ls"
            "ls \<noteq> [] \<longrightarrow> pcArg (hd ls) = pc + d"
            by auto
          have adv: "advancesByOpcode program (?l # ls)"
            using ls(4,5) dispatch_step [OF kd] by (cases ls) auto
          have ev: "events ?R = events h @ launchEvents (?l # ls)"
            using ls(2) by (simp add: R ok CALL_ONE_events launchEvents_def)
          have "params ?R = params h"
            using ls(1) by (simp add: R ok CALL_ONE_params)
          then show ?thesis
            using ev adv l ls(3) by (intro conjI exI [of _ "?l # ls"]) auto
        next
          case bad: False
          have ev: "events ?R = events h @ launchEvents [?l]"
            by (simp add: R bad CALL_ONE_events)
          have "params ?R = params h"
            by (simp add: R bad CALL_ONE_params)
          then show ?thesis
            using ev l by (intro conjI exI [of _ "[?l]"]) auto
        qed
      qed
    qed
  qed
qed

lemma launchEvents_append: "launchEvents (xs @ ys) = launchEvents xs @ launchEvents ys"
  by (simp add: launchEvents_def)

lemma launchEvents_Nil [simp]: "launchEvents [] = []"
  by (simp add: launchEvents_def)

lemma concat_replicate_Nil [simp]: "concat (replicate n []) = []"
  by (induction n) simp_all

lemma groupOK_Nil [simp]: "groupOK E al blocksPerExe sharedSize init program g []"
  by (simp add: groupOK_def)

lemma all_less_Suc_shift: "(\<forall>i < Suc n. P i) \<longleftrightarrow> P 0 \<and> (\<forall>i < n. P (Suc i))"
  by (auto simp: less_Suc_eq_0_disj)

lemma replayAll_structure:
  "\<exists>lss. length lss = length progs
      \<and> events (replayAll E al blocksPerExe sharedSize init progs g h) =
          events h @ launchEvents (concat lss)
      \<and> (\<forall>i < length progs.
            groupOK E al blocksPerExe sharedSize init (progs ! i) (g + i) (lss ! i))
      \<and> programIdx (params (replayAll E al blocksPerExe sharedSize init progs g h)) =
          programIdx (params h)
      \<and> programs (params (replayAll E al blocksPerExe sharedSize init progs g h)) =
          programs (params h)"
proof (induction progs arbitrary: g h)
  case Nil
  show ?case by (intro exI [of _ "[]"]) simp
next
  case (Cons program rest)
  let ?h1 = "h\<lparr>params := (params h)\<lparr>startPC := init\<rparr>\<rparr>"
  let ?base = "int g * int blocksPerExe"
  let ?A = "replayAll E al blocksPerExe sharedSize init (program # rest) g h"
  show ?case
  proof (cases "startOf init g")
    case (Inl e)
    then have A: "?A = ?h1\<lparr>fault := Some e\<rparr>"
      by (simp add: Let_def)
    show ?thesis
      unfolding A
      by (intro exI [of _ "replicate (length (program # rest)) []"])
         (simp add: all_less_Suc_shift)
  next
    case (Inr start)
    show ?thesis
    proof (cases "start = - 1")
      case True
      then have A: "?A = replayAll E al blocksPerExe sharedSize init rest (g + 1) ?h1"
        using Inr by (simp add: Let_def)
      from Cons.IH [of "g + 1" ?h1] obtain lss where lss:
        "length lss = length rest"
        "events (replayAll E al blocksPerExe sharedSize init rest (g + 1) ?h1) =
           events ?h1 @ launchEvents (concat lss)"
        "\<forall>i < length rest.
            groupOK E al blocksPerExe sharedSize init (rest ! i) (g + 1 + i) (lss ! i)"
        "programIdx (params (replayAll E al blocksPerExe sharedSize init rest (g + 1) ?h1)) =
           programIdx (params ?h1)"
        "programs (params (replayAll E al blocksPerExe sharedSize init rest (g + 1) ?h1)) =
           programs (params ?h1)"
        by blast
      show ?thesis
        unfolding A using lss
        by (intro exI [of _ "[] # lss"]) (simp add: all_less_Suc_shift)
    next
      case False
      let ?h2 = "replay E al blocksPerExe sharedSize program ?base start ?h1"
      from replay_structure [of E al blocksPerExe sharedSize program ?base start ?h1]
      obtain ls where ls: "params ?h2 = params ?h1"
        "events ?h2 = events ?h1 @ launchEvents ls"
        "\<forall>l \<in> set ls. replayLaunch E al blocksPerExe sharedSize program ?base l"
        "advancesByOpcode program ls" "ls \<noteq> [] \<longrightarrow> pcArg (hd ls) = start"
        by blast
      have g0: "groupOK E al blocksPerExe sharedSize init program g ls"
        using ls(3,4,5) Inr by (auto simp: groupOK_def)
      show ?thesis
      proof (cases "fault ?h2 = None")
        case ok: True
        let ?h3 = "?h2\<lparr>params := (params ?h2)\<lparr>startPC := None\<rparr>\<rparr>"
        have A: "?A = replayAll E al blocksPerExe sharedSize init rest (g + 1) ?h3"
          by (simp add: Let_def Inr False ok)
        from Cons.IH [of "g + 1" ?h3] obtain lss where lss:
          "length lss = length rest"
          "events (replayAll E al blocksPerExe sharedSize init rest (g + 1) ?h3) =
             events ?h3 @ launchEvents (concat lss)"
          "\<forall>i < length rest.
              groupOK E al blocksPerExe sharedSize init (rest ! i) (g + 1 + i) (lss ! i)"
          "programIdx (params (replayAll E al blocksPerExe sharedSize init rest (g + 1) ?h3)) =
             programIdx (params ?h3)"
          "programs (params (replayAll E al blocksPerExe sharedSize init rest (g + 1) ?h3)) =
             programs (params ?h3)"
          by blast
        show ?thesis
          unfolding A using lss ls(1,2) g0
          by (intro exI [of _ "ls # lss"]) (simp add: all_less_Suc_shift launchEvents_append)
      next
        case bad: False
        have A: "?A = ?h2"
          by (simp add: Let_def Inr False bad)
        show ?thesis
          unfolding A using ls(1,2) g0
          by (intro exI [of _ "ls # replicate (length rest) []"])
             (simp add: all_less_Suc_shift)
      qed
    qed
  qed
qed

section \<open>The scan, the reconstruction and callOne\<close>

lemma scan_ge: "blocksPerExe_scan pidx nb first b = Inr r \<Longrightarrow> b \<le> r"
proof (induction pidx nb first b rule: blocksPerExe_scan.induct)
  case (1 pidx nb first b)
  from "1.prems" show ?case
    by (subst (asm) blocksPerExe_scan.simps) (auto split: if_splits dest: "1.IH")
qed

lemma scan_pos:
  assumes "blocksPerExe_scan (first # rest) nb first 0 = Inr r" and "0 < nb"
  shows "0 < r"
proof -
  from assms have "blocksPerExe_scan (first # rest) nb first (0 + 1) = Inr r"
    by (subst (asm) blocksPerExe_scan.simps) simp
  from scan_ge [OF this] show ?thesis by simp
qed

lemma scan_nonpos:
  assumes "blocksPerExe_scan pidx nb first 0 = Inr r" and "nb \<le> 0"
  shows "r = 0"
  using assms by (subst (asm) blocksPerExe_scan.simps) simp

lemma reconstruct_result:
  "reconstruct P nb bpe i progs = Inr out \<Longrightarrow>
     \<exists>new. out = progs @ new
       \<and> (\<forall>j < length new. length progs + j < length (programs P)
             \<and> (\<exists>ins. instructions (programs P ! (length progs + j)) = Some ins
                   \<and> opcodesUntilReturn ins = Inr (new ! j))
             \<and> int (i + j * bpe) < nb)
       \<and> (new \<noteq> [] \<longrightarrow> 0 < bpe)
       \<and> (new = [] \<longleftrightarrow> nb \<le> int i)"
proof (induction P nb bpe i progs arbitrary: out rule: reconstruct.induct)
  case (1 P nb bpe i progs)
  show ?case
  proof (cases "int i < nb")
    case False
    with "1.prems" have "out = progs"
      by (subst (asm) reconstruct.simps) simp
    with False show ?thesis by simp
  next
    case True
    from "1.prems" True obtain ins ops where
      a: "length progs < length (programs P)"
         "instructions (programs P ! length progs) = Some ins"
         "opcodesUntilReturn ins = Inr ops" "0 < bpe"
         "reconstruct P nb bpe (i + bpe) (progs @ [ops]) = Inr out"
      by (subst (asm) reconstruct.simps)
         (auto simp: Let_def split: if_splits option.splits sum.splits)
    from "1.IH" [OF True refl a(1) a(2) a(3) a(4) a(5)]
    obtain new where new: "out = (progs @ [ops]) @ new"
      "\<forall>j < length new. length (progs @ [ops]) + j < length (programs P)
             \<and> (\<exists>ins. instructions (programs P ! (length (progs @ [ops]) + j)) = Some ins
                   \<and> opcodesUntilReturn ins = Inr (new ! j))
             \<and> int (i + bpe + j * bpe) < nb"
      by blast
    have "\<forall>j < length (ops # new). length progs + j < length (programs P)
             \<and> (\<exists>ins. instructions (programs P ! (length progs + j)) = Some ins
                   \<and> opcodesUntilReturn ins = Inr ((ops # new) ! j))
             \<and> int (i + j * bpe) < nb"
      using new(2) a True by (auto simp: all_less_Suc_shift algebra_simps)
    then show ?thesis
      using new(1) a(4) True by (intro exI [of _ "ops # new"]) auto
  qed
qed

lemma callOne_unfold:
  assumes "programIdx (params h) = first # rest"
    and "blocksPerExe_scan (programIdx (params h)) nb first 0 = Inr bpe"
    and "reconstruct (params h) nb bpe 0 [] = Inr progs"
  shows "callOne E al nb ss h = replayAll E al bpe ss (startPC (params h)) progs 0 h"
  using assms by (simp add: callOne_def)

lemma callOne_events:
  "\<exists>ls. events (callOne E al nb ss h) = events h @ launchEvents ls
      \<and> (\<forall>l \<in> set ls. onStream l = streamOf E al)"
proof -
  have triv: "\<And>e. \<exists>ls. events (h\<lparr>fault := e\<rparr>) = events h @ launchEvents ls
      \<and> (\<forall>l \<in> set ls. onStream l = streamOf E al)"
    by (intro exI [of _ "[]"]) simp
  show ?thesis
  proof (cases "programIdx (params h)")
    case Nil
    then show ?thesis using triv by (simp add: callOne_def)
  next
    case (Cons first rest)
    show ?thesis
    proof (cases "blocksPerExe_scan (programIdx (params h)) nb first 0")
      case (Inl e)
      then show ?thesis using triv Cons by (simp add: callOne_def)
    next
      case bpe: (Inr bpe)
      show ?thesis
      proof (cases "reconstruct (params h) nb bpe 0 []")
        case (Inl e)
        then show ?thesis using triv Cons bpe by (simp add: callOne_def)
      next
        case (Inr progs)
        from replayAll_structure [of progs E al bpe ss "startPC (params h)" 0 h]
        obtain lss where lss: "length lss = length progs"
          "events (replayAll E al bpe ss (startPC (params h)) progs 0 h) =
             events h @ launchEvents (concat lss)"
          "\<forall>i < length progs.
             groupOK E al bpe ss (startPC (params h)) (progs ! i) (0 + i) (lss ! i)"
          by blast
        have "\<forall>l \<in> set (concat lss). onStream l = streamOf E al"
        proof
          fix l
          assume "l \<in> set (concat lss)"
          then obtain xs where xs: "xs \<in> set lss" "l \<in> set xs"
            by auto
          from xs(1) obtain i where "i < length lss" "lss ! i = xs"
            by (auto simp: in_set_conv_nth)
          with xs(2) have i: "i < length lss" "l \<in> set (lss ! i)"
            by simp_all
          with lss(1,3) have "replayLaunch E al bpe ss (progs ! i) (int (0 + i) * int bpe) l"
            by (simp add: groupOK_def)
          then show "onStream l = streamOf E al"
            by (simp add: replayLaunch_def)
        qed
        then show ?thesis
          using lss(2) callOne_unfold [OF Cons bpe Inr]
          by (intro exI [of _ "concat lss"]) simp
      qed
    qed
  qed
qed

section \<open>Evaluating the example runs\<close>

text \<open>The equations that evaluate a run of the host functions on a concrete input.\<close>

lemmas run_simps = call_def callOne_def exampleHost_def exampleEnv_def blocksPerExe_scan.simps
      reconstruct.simps replay.simps CALL_ONE_def startOf_def streamOf_def Let_def newEvents_def

lemma call_stepping_example: "events (call exampleEnv True None 1 0
     (exampleHost [0] [[kPlus_BIGINT, kLT_BIGINT, kReturn]] None)) =
   [LaunchOne \<lparr>entry = K_onePlusBigint, gridDim = 1, blockDim = 256, sharedBytes = 0,
       onStream = 0, pcArg = 0, baseArg = 0\<rparr>, LastErrorCheck,
    LaunchOne \<lparr>entry = K_oneLt_int64_t, gridDim = 1, blockDim = 256, sharedBytes = 0,
       onStream = 0, pcArg = 1, baseArg = 0\<rparr>, LastErrorCheck,
    StreamWait 0]"
  by (simp add: run_simps)

section \<open>Host synchronisation in stepping mode\<close>

text \<open>
  C2, as stated: after every launch of the stepping driver the host waits before the next
  launch. It fails for a program of two instructions: the events of
  \<open>call\<close> under \<^verbatim>\<open>FLAGS_kernel_gdb\<close> are two launches, each followed only by its
  last-error check, and one wait at the end.
\<close>

theorem call_stepping_no_wait_between_launches:
  "\<not> waitsBetween False (events (call exampleEnv True None 1 0
     (exampleHost [0] [[kPlus_BIGINT, kLT_BIGINT, kReturn]] None)))"
  by (simp add: call_stepping_example)

lemma waitsBetween_launchEvents:
  "waitsBetween p (launchEvents ls @ [StreamWait s]) \<longleftrightarrow> ls = [] \<or> (\<not> p \<and> length ls \<le> 1)"
proof (cases ls)
  case Nil
  then show ?thesis by simp
next
  case (Cons l ls')
  then show ?thesis by (cases ls') (simp_all add: launchEvents_Cons)
qed

text \<open>
  C2, amended. A call in stepping mode that returns has issued the launches of the
  driver back to back, each followed only by the check of the last error, all on one
  stream (that of \<open>alias\<close> if given, the object's own otherwise), and then one wait on
  that stream, which \<open>call\<close> issues after \<open>callOne\<close> has returned. So a wait separates
  consecutive launches only when there is at most one launch.
\<close>

theorem call_stepping_waits_once:
  assumes "fault (call E True al numBlocks sharedSize h) = None"
  shows "\<exists>ls. events (call E True al numBlocks sharedSize h) =
             events h @ launchEvents ls @ [StreamWait (streamOf E al)]
           \<and> (\<forall>l \<in> set ls. onStream l = streamOf E al)
           \<and> (waitsBetween False (launchEvents ls @ [StreamWait (streamOf E al)])
                \<longleftrightarrow> length ls \<le> 1)"
proof -
  from callOne_events [of E al numBlocks sharedSize h]
  obtain ls where ls: "events (callOne E al numBlocks sharedSize h) = events h @ launchEvents ls"
    "\<forall>l \<in> set ls. onStream l = streamOf E al"
    by blast
  have ok: "fault (callOne E al numBlocks sharedSize h) = None"
    using assms by (auto simp: call_def Let_def split: if_splits)
  have "events (call E True al numBlocks sharedSize h) =
          events h @ launchEvents ls @ [StreamWait (streamOf E al)]"
    using ok ls(1) by (simp add: call_def Let_def)
  moreover have "waitsBetween False (launchEvents ls @ [StreamWait (streamOf E al)])
                \<longleftrightarrow> length ls \<le> 1"
    by (auto simp: waitsBetween_launchEvents)
  ultimately show ?thesis
    using ls(2) by blast
qed

theorem call_stepping_waits_once_witness:
  "fault (call exampleEnv True None 1 0
      (exampleHost [0] [[kPlus_BIGINT, kLT_BIGINT, kReturn]] None)) = None
   \<and> (\<exists>ls. events (call exampleEnv True None 1 0
          (exampleHost [0] [[kPlus_BIGINT, kLT_BIGINT, kReturn]] None)) =
        launchEvents ls @ [StreamWait 0] \<and> length ls = 2)"
proof -
  let ?h = "exampleHost [0] [[kPlus_BIGINT, kLT_BIGINT, kReturn]] None"
  have f: "fault (call exampleEnv True None 1 0 ?h) = None"
    by (simp add: run_simps)
  from call_stepping_waits_once [OF f]
  obtain ls where ls: "events (call exampleEnv True None 1 0 ?h) =
      events ?h @ launchEvents ls @ [StreamWait (streamOf exampleEnv None)]"
    by blast
  have e: "events ?h = []" "streamOf exampleEnv None = 0"
    by (simp_all add: exampleHost_def exampleEnv_def streamOf_def)
  have "launchesOf (events (call exampleEnv True None 1 0 ?h)) = ls"
    unfolding ls by (induction ls) (simp_all add: e launchEvents_Cons)
  then have "length ls = 2"
    by (auto simp: call_stepping_example)
  with f ls e show ?thesis
    by auto
qed

section \<open>The program that a group replays\<close>

text \<open>
  C3. The claim asks that the opcodes reconstructed and replayed for group \<open>g\<close> be those
  of the program assigned to the blocks of the group,
  \<open>params.programs[params.programIdx[g * blocksPerExe]]\<close>. \<open>callOne\<close> reads
  \<open>params.programs[programs.size()]\<close> instead (line 135), the program whose index is the
  ordinal of the group, and \<open>programIdx\<close> only to measure the first run of equal values.
  With \<open>programIdx = [1, 1, 0, 0]\<close> and the programs \<open>[kPlus_BIGINT, kReturn]\<close> and
  \<open>[kLT_BIGINT, kReturn]\<close> the run has length 2; group 0 gets the opcodes of
  \<open>programs[0]\<close> and group 1 those of \<open>programs[1]\<close>, while the blocks of group 0 are
  assigned \<open>programs[1]\<close> and the blocks of group 1 \<open>programs[0]\<close>. So the driver
  launches \<open>onePlusBigint\<close> on the blocks 0 and 1, whose program has \<open>kLT_BIGINT\<close> at
  that index, and \<open>oneLt\<close> on the blocks 2 and 3, whose program has \<open>kPlus_BIGINT\<close>.
\<close>

theorem callOne_replays_program_of_ordinal:
  "blocksPerExe_scan [1, 1, 0, 0] 4 1 0 = Inr 2
   \<and> reconstruct (params (exampleHost [1, 1, 0, 0]
         [[kPlus_BIGINT, kReturn], [kLT_BIGINT, kReturn]] None)) 4 2 0 [] =
       Inr [[kPlus_BIGINT], [kLT_BIGINT]]
   \<and> assignedProgram (params (exampleHost [1, 1, 0, 0]
         [[kPlus_BIGINT, kReturn], [kLT_BIGINT, kReturn]] None)) 2 0 = Inr [kLT_BIGINT]
   \<and> assignedProgram (params (exampleHost [1, 1, 0, 0]
         [[kPlus_BIGINT, kReturn], [kLT_BIGINT, kReturn]] None)) 2 1 = Inr [kPlus_BIGINT]
   \<and> assignedProgram (params (exampleHost [1, 1, 0, 0]
         [[kPlus_BIGINT, kReturn], [kLT_BIGINT, kReturn]] None)) 2 0 \<noteq>
       Inr ([[kPlus_BIGINT], [kLT_BIGINT]] ! 0)
   \<and> fault (callOne exampleEnv None 4 0 (exampleHost [1, 1, 0, 0]
         [[kPlus_BIGINT, kReturn], [kLT_BIGINT, kReturn]] None)) = None
   \<and> launchesOf (events (callOne exampleEnv None 4 0 (exampleHost [1, 1, 0, 0]
         [[kPlus_BIGINT, kReturn], [kLT_BIGINT, kReturn]] None))) =
       [\<lparr>entry = K_onePlusBigint, gridDim = 2, blockDim = 256, sharedBytes = 0,
          onStream = 0, pcArg = 0, baseArg = 0\<rparr>,
        \<lparr>entry = K_oneLt_int64_t, gridDim = 2, blockDim = 256, sharedBytes = 0,
          onStream = 0, pcArg = 0, baseArg = 2\<rparr>]"
  by (simp add: run_simps assignedProgram_def)

section \<open>The advance of the program counter\<close>

lemma newEvents_append [simp]: "events h' = events h @ es \<Longrightarrow> newEvents h h' = es"
  by (simp add: newEvents_def)

lemma advancesByOpcode_later:
  "advancesByOpcode program (l # ls) \<Longrightarrow> l' \<in> set ls \<Longrightarrow>
     pcArg l + (if program ! nat (pcArg l) = kFilter then 2 else 1) \<le> pcArg l'"
proof (induction ls arbitrary: l)
  case Nil
  then show ?case by simp
next
  case (Cons a ls)
  show ?case
  proof (cases "l' = a")
    case True
    with Cons.prems show ?thesis by simp
  next
    case False
    with Cons.prems have "l' \<in> set ls" "advancesByOpcode program (a # ls)"
      by simp_all
    from Cons.IH [OF this(2) this(1)] Cons.prems(1) show ?thesis
      by (simp split: if_splits)
  qed
qed

lemma advancesByOpcode_tail: "advancesByOpcode program (l # ls) \<Longrightarrow> advancesByOpcode program ls"
  by (cases ls) simp_all

lemma advancesByOpcode_skips:
  "advancesByOpcode program ls \<Longrightarrow> l \<in> set ls \<Longrightarrow> l' \<in> set ls \<Longrightarrow>
     program ! nat (pcArg l) = kFilter \<Longrightarrow> pcArg l' \<noteq> pcArg l + 1"
proof (induction ls)
  case Nil
  then show ?case by simp
next
  case (Cons a ls)
  note tl = advancesByOpcode_tail [OF Cons.prems(1)]
  consider "l = a" "l' = a" | "l = a" "l' \<in> set ls" | "l \<in> set ls" "l' = a"
    | "l \<in> set ls" "l' \<in> set ls"
    using Cons.prems(2,3) by auto
  then show ?case
  proof cases
    case 1
    then show ?thesis by simp
  next
    case 2
    from advancesByOpcode_later [OF Cons.prems(1) 2(2)] 2(1) Cons.prems(4) show ?thesis
      by simp
  next
    case 3
    from advancesByOpcode_later [OF Cons.prems(1) 3(1)] 3(2) show ?thesis
      by (simp split: if_splits)
  next
    case 4
    from Cons.IH [OF tl 4 Cons.prems(4)] show ?thesis .
  qed
qed

text \<open>
  C4. In the replay loop a launch at a \<open>kFilter\<close> is followed by the replay from two
  positions further, a launch at any other opcode that has a case by the replay from
  the next position; so of two consecutive launches of a replay the second is two after
  a \<open>kFilter\<close> and one after any other opcode, and the position right after a launched
  \<open>kFilter\<close> is never the \<open>pc\<close> of a launch. (An opcode without a case is not launched:
  the loop stops at its \<^verbatim>\<open>assert(false)\<close>.)
\<close>

theorem replay_advances_by_opcode:
  "(0 \<le> pc \<and> nat pc < length program \<and> programs (params h) = p0 # ps
      \<and> instructions p0 \<noteq> None \<and> dispatch (program ! nat pc) = Some (k, d)
      \<and> fault (CALL_ONE E al blocksPerExe sharedSize k pc base h) = None \<longrightarrow>
      replay E al blocksPerExe sharedSize program base pc h =
        replay E al blocksPerExe sharedSize program base
          (pc + (if program ! nat pc = kFilter then 2 else 1))
          (CALL_ONE E al blocksPerExe sharedSize k pc base h))
   \<and> advancesByOpcode program
        (launchesOf (newEvents h (replay E al blocksPerExe sharedSize program base pc h)))
   \<and> (\<forall>l \<in> set (launchesOf
            (newEvents h (replay E al blocksPerExe sharedSize program base pc h))).
        \<forall>l' \<in> set (launchesOf
            (newEvents h (replay E al blocksPerExe sharedSize program base pc h))).
          program ! nat (pcArg l) = kFilter \<longrightarrow> pcArg l' \<noteq> pcArg l + 1)"
proof -
  let ?R = "replay E al blocksPerExe sharedSize program base pc h"
  from replay_structure [of E al blocksPerExe sharedSize program base pc h]
  obtain ls where ls: "events ?R = events h @ launchEvents ls" "advancesByOpcode program ls"
    by blast
  have n: "launchesOf (newEvents h ?R) = ls"
    using ls(1) by simp
  have step: "0 \<le> pc \<and> nat pc < length program \<and> programs (params h) = p0 # ps
      \<and> instructions p0 \<noteq> None \<and> dispatch (program ! nat pc) = Some (k, d)
      \<and> fault (CALL_ONE E al blocksPerExe sharedSize k pc base h) = None \<longrightarrow>
      ?R = replay E al blocksPerExe sharedSize program base
          (pc + (if program ! nat pc = kFilter then 2 else 1))
          (CALL_ONE E al blocksPerExe sharedSize k pc base h)"
  proof
    assume a: "0 \<le> pc \<and> nat pc < length program \<and> programs (params h) = p0 # ps
      \<and> instructions p0 \<noteq> None \<and> dispatch (program ! nat pc) = Some (k, d)
      \<and> fault (CALL_ONE E al blocksPerExe sharedSize k pc base h) = None"
    then have d: "d = (if program ! nat pc = kFilter then 2 else 1)"
      using dispatch_step by blast
    from a have f: "0 \<le> pc \<and> nat pc < length program" "programs (params h) = p0 # ps"
      "instructions p0 \<noteq> None" "dispatch (program ! nat pc) = Some (k, d)"
      "fault (CALL_ONE E al blocksPerExe sharedSize k pc base h) = None"
      by simp_all
    show "?R = replay E al blocksPerExe sharedSize program base
          (pc + (if program ! nat pc = kFilter then 2 else 1))
          (CALL_ONE E al blocksPerExe sharedSize k pc base h)"
      by (subst replay_unfold) (simp add: f Let_def d [symmetric])
  qed
  show ?thesis
    unfolding n using step ls(2) advancesByOpcode_skips [OF ls(2)] by blast
qed

theorem replay_advances_by_opcode_witness:
  "launchesOf (newEvents (exampleHost [0] [[kFilter, kPlus_BIGINT, kLT_BIGINT, kReturn]] None)
     (replay exampleEnv None 1 0 [kFilter, kPlus_BIGINT, kLT_BIGINT] 0 0
        (exampleHost [0] [[kFilter, kPlus_BIGINT, kLT_BIGINT, kReturn]] None))) =
     [\<lparr>entry = K_oneFilter, gridDim = 1, blockDim = 256, sharedBytes = 0,
        onStream = 0, pcArg = 0, baseArg = 0\<rparr>,
      \<lparr>entry = K_oneLt_int64_t, gridDim = 1, blockDim = 256, sharedBytes = 0,
        onStream = 0, pcArg = 2, baseArg = 0\<rparr>]
   \<and> advancesByOpcode [kFilter, kPlus_BIGINT, kLT_BIGINT]
       (launchesOf (newEvents (exampleHost [0] [[kFilter, kPlus_BIGINT, kLT_BIGINT, kReturn]] None)
         (replay exampleEnv None 1 0 [kFilter, kPlus_BIGINT, kLT_BIGINT] 0 0
            (exampleHost [0] [[kFilter, kPlus_BIGINT, kLT_BIGINT, kReturn]] None))))"
proof -
  let ?h = "exampleHost [0] [[kFilter, kPlus_BIGINT, kLT_BIGINT, kReturn]] None"
  let ?p = "[kFilter, kPlus_BIGINT, kLT_BIGINT]"
  have "launchesOf (newEvents ?h (replay exampleEnv None 1 0 ?p 0 0 ?h)) =
     [\<lparr>entry = K_oneFilter, gridDim = 1, blockDim = 256, sharedBytes = 0,
        onStream = 0, pcArg = 0, baseArg = 0\<rparr>,
      \<lparr>entry = K_oneLt_int64_t, gridDim = 1, blockDim = 256, sharedBytes = 0,
        onStream = 0, pcArg = 2, baseArg = 0\<rparr>]"
    by (simp add: run_simps)
  moreover from replay_advances_by_opcode [of 0 ?p ?h _ _ _ _ exampleEnv None 1 0 0]
  have "advancesByOpcode ?p (launchesOf (newEvents ?h (replay exampleEnv None 1 0 ?p 0 0 ?h)))"
    by blast
  ultimately show ?thesis
    by blast
qed

section \<open>Skipped programs and the resume point\<close>

text \<open>
  C5. The claim asks that a program whose resume point is the sentinel \<open>- 1\<close> get no launch
  and that its buffers stay as they are. \<open>callOne\<close> reads the resume point of a group at the
  ordinal of the group (line 147) and launches on the blocks from that ordinal times
  \<open>blocksPerExe\<close> (line 143), whatever program \<open>programIdx\<close> assigns to those blocks. With
  \<open>programIdx = [1, 1, 0, 0]\<close> and \<open>startPC = [- 1, 0]\<close> the program with the sentinel is
  program 0, which the blocks 2 and 3 run. The driver skips group 0, the blocks 0 and 1 of
  program 1, whose resume point is 0, and issues its one launch on the blocks 2 and 3: a
  launch on the blocks of the program that was to be skipped, and none on the blocks of
  the program that was to run. With a null \<open>startPC\<close> the driver launches for both groups,
  from instruction index 0.
\<close>

theorem callOne_launches_on_program_with_sentinel:
  "startPC (params (exampleHost [1, 1, 0, 0]
         [[kPlus_BIGINT, kReturn], [kLT_BIGINT, kReturn]] (Some [- 1, 0]))) = Some [- 1, 0]
   \<and> programIdx (params (exampleHost [1, 1, 0, 0]
         [[kPlus_BIGINT, kReturn], [kLT_BIGINT, kReturn]] (Some [- 1, 0]))) = [1, 1, 0, 0]
   \<and> fault (callOne exampleEnv None 4 0 (exampleHost [1, 1, 0, 0]
         [[kPlus_BIGINT, kReturn], [kLT_BIGINT, kReturn]] (Some [- 1, 0]))) = None
   \<and> launchesOf (events (callOne exampleEnv None 4 0 (exampleHost [1, 1, 0, 0]
         [[kPlus_BIGINT, kReturn], [kLT_BIGINT, kReturn]] (Some [- 1, 0])))) =
       [\<lparr>entry = K_oneLt_int64_t, gridDim = 2, blockDim = 256, sharedBytes = 0,
          onStream = 0, pcArg = 0, baseArg = 2\<rparr>]
   \<and> launchBlocks \<lparr>entry = K_oneLt_int64_t, gridDim = 2, blockDim = 256, sharedBytes = 0,
          onStream = 0, pcArg = 0, baseArg = 2\<rparr> = [2, 3]
   \<and> map (\<lambda>b. programIdx (params (exampleHost [1, 1, 0, 0]
         [[kPlus_BIGINT, kReturn], [kLT_BIGINT, kReturn]] (Some [- 1, 0]))) ! b) [2, 3] = [0, 0]
   \<and> map (\<lambda>b. programIdx (params (exampleHost [1, 1, 0, 0]
         [[kPlus_BIGINT, kReturn], [kLT_BIGINT, kReturn]] (Some [- 1, 0]))) ! b) [0, 1] = [1, 1]
   \<and> map (\<lambda>l. (pcArg l, baseArg l)) (launchesOf (events (callOne exampleEnv None 4 0
         (exampleHost [1, 1, 0, 0]
           [[kPlus_BIGINT, kReturn], [kLT_BIGINT, kReturn]] None)))) = [(0, 0), (0, 2)]"
  by (simp add: run_simps launchBlocks_def)

section \<open>The resume array after callOne\<close>


lemma replayAll_startPC:
  "fault (replayAll E al blocksPerExe sharedSize init progs g h) = None \<Longrightarrow>
     startPC (params (replayAll E al blocksPerExe sharedSize init progs g h)) =
       (if progs = [] then startPC (params h)
        else if startOf init (g + length progs - 1) = Inr (- 1) then init else None)"
proof (induction progs arbitrary: g h)
  case Nil
  then show ?case by simp
next
  case (Cons program rest)
  let ?h1 = "h\<lparr>params := (params h)\<lparr>startPC := init\<rparr>\<rparr>"
  let ?base = "int g * int blocksPerExe"
  let ?A = "replayAll E al blocksPerExe sharedSize init (program # rest) g h"
  show ?case
  proof (cases "startOf init g")
    case (Inl e)
    then have "fault ?A = Some e"
      by (simp add: Let_def)
    with Cons.prems show ?thesis by simp
  next
    case (Inr start)
    show ?thesis
    proof (cases "start = - 1")
      case True
      then have A: "?A = replayAll E al blocksPerExe sharedSize init rest (g + 1) ?h1"
        by (simp add: Let_def Inr)
      from Cons.prems have "fault (replayAll E al blocksPerExe sharedSize init rest (g + 1) ?h1)
          = None"
        by (simp only: A)
      from Cons.IH [OF this] show ?thesis
        unfolding A using Inr True by (cases rest) simp_all
    next
      case False
      let ?h2 = "replay E al blocksPerExe sharedSize program ?base start ?h1"
      let ?h3 = "?h2\<lparr>params := (params ?h2)\<lparr>startPC := None\<rparr>\<rparr>"
      have ok: "fault ?h2 = None"
      proof (rule ccontr)
        assume bad: "fault ?h2 \<noteq> None"
        have "?A = ?h2"
          by (simp add: Let_def Inr False bad)
        with Cons.prems bad show False by simp
      qed
      have A: "?A = replayAll E al blocksPerExe sharedSize init rest (g + 1) ?h3"
        by (simp add: Let_def Inr False ok)
      from Cons.prems have "fault (replayAll E al blocksPerExe sharedSize init rest (g + 1) ?h3)
          = None"
        by (simp only: A)
      from Cons.IH [OF this] show ?thesis
        unfolding A using Inr False by (cases rest) simp_all
    qed
  qed
qed

text \<open>
  C9. When \<open>callOne\<close> returns, \<open>params.startPC\<close> is null if there is at least one group
  and the resume point of the last group is not the sentinel; a resume array supplied at
  entry is still in \<open>params\<close> exactly when there is no group (\<open>numBlocks \<le> 0\<close>) or the last
  group was skipped by the sentinel. The other fields read here are unchanged.
\<close>

theorem callOne_leaves_startPC_null:
  assumes "programIdx (params h) = first # rest"
    and "blocksPerExe_scan (programIdx (params h)) numBlocks first 0 = Inr blocksPerExe"
    and "reconstruct (params h) numBlocks blocksPerExe 0 [] = Inr progs"
    and "fault (callOne E al numBlocks sharedSize h) = None"
  shows "(progs \<noteq> [] \<and> startOf (startPC (params h)) (length progs - 1) \<noteq> Inr (- 1) \<longrightarrow>
            startPC (params (callOne E al numBlocks sharedSize h)) = None)
         \<and> (startPC (params h) = Some a \<longrightarrow>
              (startPC (params (callOne E al numBlocks sharedSize h)) = Some a \<longleftrightarrow>
                 progs = [] \<or> startOf (Some a) (length progs - 1) = Inr (- 1)))
         \<and> (progs = [] \<longleftrightarrow> numBlocks \<le> 0)
         \<and> programIdx (params (callOne E al numBlocks sharedSize h)) = programIdx (params h)
         \<and> programs (params (callOne E al numBlocks sharedSize h)) = programs (params h)"
proof -
  note u = callOne_unfold [OF assms(1,2,3), of E al sharedSize]
  from assms(4) have "fault (replayAll E al blocksPerExe sharedSize (startPC (params h)) progs 0 h)
      = None"
    by (simp only: u)
  from replayAll_startPC [OF this]
  have s: "startPC (params (callOne E al numBlocks sharedSize h)) =
       (if progs = [] then startPC (params h)
        else if startOf (startPC (params h)) (length progs - 1) = Inr (- 1)
             then startPC (params h) else None)"
    by (simp add: u)
  from reconstruct_result [OF assms(3)] have e: "progs = [] \<longleftrightarrow> numBlocks \<le> 0"
    by auto
  from replayAll_structure [of progs E al blocksPerExe sharedSize "startPC (params h)" 0 h]
  have p: "programIdx (params (callOne E al numBlocks sharedSize h)) = programIdx (params h)"
    "programs (params (callOne E al numBlocks sharedSize h)) = programs (params h)"
    unfolding u by blast+
  show ?thesis
    using s e p by auto
qed

theorem callOne_leaves_startPC_null_witness:
  "fault (callOne exampleEnv None 2 0
      (exampleHost [0, 1] [[kPlus_BIGINT, kReturn], [kLT_BIGINT, kReturn]] (Some [- 1, 0]))) = None
   \<and> startPC (params (callOne exampleEnv None 2 0
      (exampleHost [0, 1] [[kPlus_BIGINT, kReturn], [kLT_BIGINT, kReturn]] (Some [- 1, 0])))) = None"
proof -
  let ?h = "exampleHost [0, 1] [[kPlus_BIGINT, kReturn], [kLT_BIGINT, kReturn]] (Some [- 1, 0])"
  have a: "programIdx (params ?h) = 0 # [1]"
    by (simp add: exampleHost_def)
  have b: "blocksPerExe_scan (programIdx (params ?h)) 2 0 0 = Inr 1"
    by (simp add: run_simps)
  have c: "reconstruct (params ?h) 2 1 0 [] = Inr [[kPlus_BIGINT], [kLT_BIGINT]]"
    by (simp add: run_simps)
  have d: "fault (callOne exampleEnv None 2 0 ?h) = None"
    by (simp add: run_simps)
  have s: "[[kPlus_BIGINT], [kLT_BIGINT]] \<noteq> []
      \<and> startOf (startPC (params ?h)) (length [[kPlus_BIGINT], [kLT_BIGINT]] - 1) \<noteq> Inr (- 1)"
    by (simp add: exampleHost_def startOf_def)
  from callOne_leaves_startPC_null [OF a b c d, of "[]"] s
  have "startPC (params (callOne exampleEnv None 2 0 ?h)) = None"
    by blast
  with d show ?thesis
    by blast
qed

section \<open>Opcodes without a case\<close>


text \<open>
  C10. An instruction whose opcode is none of the seven that \<open>waveBaseKernel\<close> has a case
  for changes nothing in the fused interpreter: the loop goes on with the next
  instruction on the same state, so dropping such instructions from a program does not
  change its result. The replay loop of the stepping driver stops at such an opcode with
  a failed assertion and launches nothing for it.
\<close>

theorem waveBaseKernel_ignores_other_opcodes:
  assumes "opCode i \<notin> {kReturn, kFilter, kWrap, kAggregate, kReadAggregate, kPlus_BIGINT, kLT_BIGINT}"
  shows "waveBaseKernel_loop D (i # next) s = waveBaseKernel_loop D next s
         \<and> waveBaseKernel_loop D (filter (\<lambda>j. opCode j \<noteq> opCode i) ins) s =
             waveBaseKernel_loop D ins s
         \<and> (0 \<le> pc \<and> nat pc < length program \<and> program ! nat pc = opCode i
              \<and> programs (params h) \<noteq> [] \<longrightarrow>
              replay E al blocksPerExe sharedSize program base pc h =
                h\<lparr>fault := Some AssertionFailed\<rparr>)"
proof -
  from assms obtain n where n: "opCode i = kOtherOp n"
    by (cases "opCode i") auto
  then have a: "waveBaseKernel_loop D (i # next) s = waveBaseKernel_loop D next s"
    by simp
  have b: "waveBaseKernel_loop D (filter (\<lambda>j. opCode j \<noteq> opCode i) ins) s =
             waveBaseKernel_loop D ins s"
    unfolding n
  proof (induction ins arbitrary: s)
    case Nil
    show ?case by simp
  next
    case (Cons j ins)
    show ?case
      by (cases "opCode j") (simp_all add: Cons.IH)
  qed
  have "0 \<le> pc \<and> nat pc < length program \<and> program ! nat pc = opCode i
              \<and> programs (params h) \<noteq> [] \<longrightarrow>
              replay E al blocksPerExe sharedSize program base pc h =
                h\<lparr>fault := Some AssertionFailed\<rparr>"
    by (subst replay_unfold) (auto simp: n dispatch_def split: list.splits)
  with a b show ?thesis
    by blast
qed

theorem waveBaseKernel_ignores_other_opcodes_witness:
  "waveBaseKernel_loop exampleDevice
     [\<lparr>opCode = kOtherOp 7, payload = 0\<rparr>, \<lparr>opCode = kPlus_BIGINT, payload = 0\<rparr>,
      \<lparr>opCode = kReturn, payload = 0\<rparr>] [] = Inr [5]
   \<and> replay exampleEnv None 1 0 [kOtherOp 7, kPlus_BIGINT] 0 0
        (exampleHost [0] [[kOtherOp 7, kPlus_BIGINT, kReturn]] None) =
      (exampleHost [0] [[kOtherOp 7, kPlus_BIGINT, kReturn]] None)\<lparr>fault := Some AssertionFailed\<rparr>"
proof -
  let ?i = "\<lparr>opCode = kOtherOp 7, payload = 0 :: nat\<rparr>"
  let ?next = "[\<lparr>opCode = kPlus_BIGINT, payload = 0 :: nat\<rparr>, \<lparr>opCode = kReturn, payload = 0\<rparr>]"
  let ?h = "exampleHost [0] [[kOtherOp 7, kPlus_BIGINT, kReturn]] None"
  have h: "opCode ?i \<notin> {kReturn, kFilter, kWrap, kAggregate, kReadAggregate, kPlus_BIGINT,
      kLT_BIGINT}"
    by simp
  note t = waveBaseKernel_ignores_other_opcodes [OF h, of exampleDevice ?next "[]" _ 0
      "[kOtherOp 7, kPlus_BIGINT]" ?h exampleEnv None 1 0 0]
  have "waveBaseKernel_loop exampleDevice ?next [] = Inr [5]"
    by (simp add: exampleDevice_def)
  with t [THEN conjunct1] have a: "waveBaseKernel_loop exampleDevice (?i # ?next) [] = Inr [5]"
    by simp
  have "(0::int) \<le> 0 \<and> nat 0 < length [kOtherOp 7, kPlus_BIGINT]
      \<and> [kOtherOp 7, kPlus_BIGINT] ! nat 0 = opCode ?i \<and> programs (params ?h) \<noteq> []"
    by (simp add: exampleHost_def)
  with t [THEN conjunct2, THEN conjunct2]
  have "replay exampleEnv None 1 0 [kOtherOp 7, kPlus_BIGINT] 0 0 ?h =
      ?h\<lparr>fault := Some AssertionFailed\<rparr>"
    by blast
  with a show ?thesis
    by blast
qed

section \<open>The stepping driver against the fused interpreter\<close>





subsection \<open>Kernels that work on their block alone\<close>







lemma stepped_Nil [simp]: "stepped K b [] s = s"
  by (simp add: stepped_def)



subsection \<open>Launches of such kernels\<close>









lemma newEvents_self [simp]: "newEvents h h = []"
  by (simp add: newEvents_def)












end
